theory Spec2Isabelle
  imports Complex_Main "HOL-Library.Sublist"
begin

section \<open>Block rendering: the data model\<close>

text \<open>
  JavaScript numbers are doubles. The finite doubles are rationals, the numbers of this
  model; \<open>NaN\<close> and the infinities do not occur. The constructors of the measurables
  and the drawer compute on them without rounding; the layout passes of RenderInfo round
  every sum and difference (see \<open>rounding\<close> below).
\<close>

type_synonym number = rat

text \<open>What a \<open>throw\<close> or a failed property access leaves behind.\<close>

datatype error = Error string | TypeError string

text \<open>
  Modelled from the spec: the tags \<open>Blockly.INPUT_VALUE\<close>, \<open>Blockly.OUTPUT_VALUE\<close>,
  \<open>Blockly.NEXT_STATEMENT\<close>, \<open>Blockly.PREVIOUS_STATEMENT\<close> and \<open>Blockly.DUMMY_INPUT\<close> are
  declared outside the sources at hand. They are pairwise different values of the
  \<open>type\<close> property of an input or of a connection; \<open>OTHER_TYPE n\<close> stands for any
  value that is none of the five.
\<close>

datatype blocklyType =
    INPUT_VALUE | OUTPUT_VALUE | NEXT_STATEMENT | PREVIOUS_STATEMENT | DUMMY_INPUT
  | OTHER_TYPE int

subsection \<open>Strings\<close>

text \<open>\<open>String.prototype.indexOf\<close>: the first position at which \<open>sub\<close> occurs, or \<open>-1\<close>.\<close>

fun indexOfFrom :: "string \<Rightarrow> string \<Rightarrow> int \<Rightarrow> int" where
  "indexOfFrom [] sub i = (if sub = [] then i else -1)"
| "indexOfFrom (c # cs) sub i =
     (if prefix sub (c # cs) then i else indexOfFrom cs sub (i + 1))"

definition indexOf :: "string \<Rightarrow> string \<Rightarrow> int" where
  "indexOf s sub = indexOfFrom s sub 0"

text \<open>\<open>Array.prototype.indexOf\<close>: the first index holding \<open>x\<close>, or \<open>-1\<close>.\<close>

fun arrayIndexOfFrom :: "'a list \<Rightarrow> 'a \<Rightarrow> int \<Rightarrow> int" where
  "arrayIndexOfFrom [] x i = -1"
| "arrayIndexOfFrom (y # ys) x i = (if y = x then i else arrayIndexOfFrom ys x (i + 1))"

definition arrayIndexOf :: "'a list \<Rightarrow> 'a \<Rightarrow> int" where
  "arrayIndexOf xs x = arrayIndexOfFrom xs x 0"

subsection \<open>Constants\<close>

text \<open>
  The shape object of a connection as the row walks of the drawer read it:
  \<open>shape.pathLeft\<close>, \<open>shape.pathRight\<close> and its size.
\<close>

record shape =
  shapeWidth :: number
  shapeHeight :: number
  pathLeft :: string
  pathRight :: string

record outsideCorners =
  topLeft :: string
  topRight :: string
  bottomLeft :: string
  bottomRight :: string

text \<open>
  The constant provider \<open>this.constants_\<close>. The base provider is declared outside the
  sources at hand, so the values the code reads from it are fields of this record and
  every theorem holds for each choice of them. \<open>START_HAT_path\<close> is
  \<open>START_HAT.path\<close>, \<open>JAGGED_TEETH\<close> and \<open>SPACER_DEFAULT_HEIGHT\<close> size the
  measurables whose constructors are modelled below.
\<close>

record constants =
  NO_PADDING :: number
  MEDIUM_PADDING :: number
  LARGE_PADDING :: number
  CORNER_RADIUS :: number
  NOTCH_OFFSET_LEFT :: number
  NOTCH :: shape
  OUTSIDE_CORNERS :: outsideCorners
  START_HAT_path :: string
  JAGGED_TEETH :: "number \<times> number"
  SPACER_DEFAULT_HEIGHT :: number

subsection \<open>Measurables (core/renderers/measurables/base.js)\<close>

text \<open>
  \<open>mtype\<close> is the property \<open>type\<close>, \<open>None\<close> for \<open>null\<close>; \<open>shape\<close> is \<open>None\<close> where
  the object has no such property.
\<close>

record measurable =
  isInput :: bool
  width :: number
  height :: number
  mtype :: "string option"
  xPos :: number
  centerline :: number
  notchOffset :: number
  shape :: "shape option"

definition Measurable :: "constants \<Rightarrow> measurable" where
  "Measurable c =
     \<lparr> isInput = False, width = 0, height = 0, mtype = None, xPos = 0, centerline = 0,
       notchOffset = NOTCH_OFFSET_LEFT c, shape = None \<rparr>"

definition isField :: "measurable \<Rightarrow> bool" where
  "isField m = (mtype m = Some ''field'')"

definition isHat :: "measurable \<Rightarrow> bool" where
  "isHat m = (mtype m = Some ''hat'')"

definition isIcon :: "measurable \<Rightarrow> bool" where
  "isIcon m = (mtype m = Some ''icon'')"

definition isSpacer :: "measurable \<Rightarrow> bool" where
  "isSpacer m = (mtype m = Some ''between-row spacer'' \<or> mtype m = Some ''in-row spacer'')"

definition isExternalInput :: "measurable \<Rightarrow> bool" where
  "isExternalInput m = (mtype m = Some ''external value input'')"

definition isInlineInput :: "measurable \<Rightarrow> bool" where
  "isInlineInput m = (mtype m = Some ''inline input'')"

definition isStatementInput :: "measurable \<Rightarrow> bool" where
  "isStatementInput m = (mtype m = Some ''statement input'')"

definition isPreviousConnection :: "measurable \<Rightarrow> bool" where
  "isPreviousConnection m = (mtype m = Some ''previous connection'')"

definition isNextConnection :: "measurable \<Rightarrow> bool" where
  "isNextConnection m = (mtype m = Some ''next connection'')"

text \<open>
  The four predicates below call \<open>this.type.indexOf\<close>, which throws a \<open>TypeError\<close> while
  \<open>type\<close> is still \<open>null\<close>.
\<close>

definition isCorner :: "measurable \<Rightarrow> error + bool" where
  "isCorner m =
     (case mtype m of
        None \<Rightarrow> Inl (TypeError ''type is null'')
      | Some t \<Rightarrow> Inr (indexOf t ''corner'' > -1))"

definition isRoundedCorner :: "measurable \<Rightarrow> error + bool" where
  "isRoundedCorner m =
     (case mtype m of
        None \<Rightarrow> Inl (TypeError ''type is null'')
      | Some t \<Rightarrow> Inr (indexOf t ''round corner'' = 0))"

definition isSquareCorner :: "measurable \<Rightarrow> error + bool" where
  "isSquareCorner m =
     (case mtype m of
        None \<Rightarrow> Inl (TypeError ''type is null'')
      | Some t \<Rightarrow> Inr (indexOf t ''square corner'' = 0))"

definition isRightCorner :: "measurable \<Rightarrow> error + bool" where
  "isRightCorner m =
     (case mtype m of
        None \<Rightarrow> Inl (TypeError ''type is null'')
      | Some t \<Rightarrow> Inr (indexOf t ''corner right'' > -1))"

definition isJaggedEdge :: "measurable \<Rightarrow> bool" where
  "isJaggedEdge m = (mtype m = Some ''jagged edge'')"

subsection \<open>Zelos corner measurables\<close>

definition RoundCorner :: "constants \<Rightarrow> measurable" where
  "RoundCorner c =
     (Measurable c)\<lparr> mtype := Some ''round corner'', width := CORNER_RADIUS c,
                     height := shapeHeight (NOTCH c) / 2 \<rparr>"

definition RightRoundCorner :: "constants \<Rightarrow> measurable" where
  "RightRoundCorner c =
     (Measurable c)\<lparr> mtype := Some ''right round corner'', width := CORNER_RADIUS c,
                     height := shapeHeight (NOTCH c) / 2 \<rparr>"

section \<open>The Zelos constant provider: \<open>shapeFor\<close>\<close>

text \<open>
  A connection as \<open>shapeFor\<close> reads it: its \<open>type\<close> and the result of \<open>getCheck()\<close>,
  an array of type names or \<open>null\<close>.
\<close>

record connection =
  connType :: blocklyType
  getCheck :: "string list option"

text \<open>
  The shape tables of the provider. The shapes are only handed on by \<open>shapeFor\<close>, so
  their type is left open.
\<close>

record 's shapeTable =
  TRIANGLE :: 's
  PUZZLE_TAB :: 's
  HEXAGONAL :: 's
  ROUNDED :: 's
  NOTCH_shape :: 's

text \<open>
  core/renderers/zelos/constants.js holds two revisions of \<open>shapeFor\<close>. The earlier
  one reads \<open>TRIANGLE\<close> and \<open>PUZZLE_TAB\<close> from the global
  \<open>Blockly.blockRendering.constants\<close> (\<open>g\<close>) and the notch from \<open>this\<close>.
\<close>

definition shapeFor_triangle :: "'s shapeTable \<Rightarrow> 's shapeTable \<Rightarrow> connection \<Rightarrow> error + 's" where
  "shapeFor_triangle g this connection =
     (let checks = getCheck connection in
      case connType connection of
        INPUT_VALUE \<Rightarrow>
          (if checks \<noteq> None \<and> arrayIndexOf (the checks) ''Boolean'' \<noteq> -1
           then Inr (TRIANGLE g) else Inr (PUZZLE_TAB g))
      | OUTPUT_VALUE \<Rightarrow>
          (if checks \<noteq> None \<and> arrayIndexOf (the checks) ''Boolean'' \<noteq> -1
           then Inr (TRIANGLE g) else Inr (PUZZLE_TAB g))
      | PREVIOUS_STATEMENT \<Rightarrow> Inr (NOTCH_shape this)
      | NEXT_STATEMENT \<Rightarrow> Inr (NOTCH_shape this)
      | _ \<Rightarrow> Inl (Error ''Unknown type''))"

text \<open>The later revision: hexagonal for Boolean checks, rounded otherwise.\<close>

definition shapeFor :: "'s shapeTable \<Rightarrow> connection \<Rightarrow> error + 's" where
  "shapeFor this connection =
     (let checks = getCheck connection in
      case connType connection of
        INPUT_VALUE \<Rightarrow>
          (if checks \<noteq> None \<and> arrayIndexOf (the checks) ''Boolean'' \<noteq> -1
           then Inr (HEXAGONAL this)
           else if checks \<noteq> None \<and> arrayIndexOf (the checks) ''Number'' \<noteq> -1
           then Inr (ROUNDED this)
           else if checks \<noteq> None \<and> arrayIndexOf (the checks) ''String'' \<noteq> -1
           then Inr (ROUNDED this)
           else Inr (ROUNDED this))
      | OUTPUT_VALUE \<Rightarrow>
          (if checks \<noteq> None \<and> arrayIndexOf (the checks) ''Boolean'' \<noteq> -1
           then Inr (HEXAGONAL this)
           else if checks \<noteq> None \<and> arrayIndexOf (the checks) ''Number'' \<noteq> -1
           then Inr (ROUNDED this)
           else if checks \<noteq> None \<and> arrayIndexOf (the checks) ''String'' \<noteq> -1
           then Inr (ROUNDED this)
           else Inr (ROUNDED this))
      | PREVIOUS_STATEMENT \<Rightarrow> Inr (NOTCH_shape this)
      | NEXT_STATEMENT \<Rightarrow> Inr (NOTCH_shape this)
      | _ \<Rightarrow> Inl (Error ''Unknown type''))"

section \<open>RenderInfo: spacing inside a row\<close>

text \<open>
  Names that end in an underscore in the source (\<open>getInRowSpacing_\<close>, \<open>createRows_\<close>,
  ...) are written without it.
\<close>

definition getInRowSpacing ::
    "constants \<Rightarrow> measurable option \<Rightarrow> measurable option \<Rightarrow> number" where
  "getInRowSpacing c prev next =
     (if prev \<noteq> None \<and> isInput (the prev) \<and> next = None then
        (if isExternalInput (the prev) then NO_PADDING c
         else if isInlineInput (the prev) then LARGE_PADDING c
         else if isStatementInput (the prev) then NO_PADDING c
         else MEDIUM_PADDING c)
      else MEDIUM_PADDING c)"


subsection \<open>Sequencing of computations that may throw\<close>

definition bindE :: "error + 'a \<Rightarrow> ('a \<Rightarrow> error + 'b) \<Rightarrow> error + 'b" where
  "bindE x f = (case x of Inl e \<Rightarrow> Inl e | Inr v \<Rightarrow> f v)"

text \<open>\<open>a && b\<close> and \<open>!a\<close> on conditions whose evaluation may throw; \<open>&&\<close> evaluates \<open>b\<close>
  only when \<open>a\<close> is true.\<close>

definition andAlso :: "error + bool \<Rightarrow> error + bool \<Rightarrow> error + bool" where
  "andAlso a b = bindE a (\<lambda>x. if x then b else Inr False)"

definition notE :: "error + bool \<Rightarrow> error + bool" where
  "notE a = bindE a (\<lambda>x. Inr (\<not> x))"

section \<open>Rows\<close>

text \<open>
  The row classes are declared outside the sources at hand; the record has the
  properties of a row that the sources read or write. \<open>rowType\<close>, \<open>rowWidth\<close>,
  \<open>rowHeight\<close>, \<open>rowXPos\<close> and \<open>rowStatementEdge\<close> are the properties \<open>type\<close>,
  \<open>width\<close>, \<open>height\<close>, \<open>xPos\<close> and \<open>statementEdge\<close> of a row; \<open>startY\<close> belongs to the
  top row and \<open>overhangY\<close> to the bottom row.
\<close>

record row =
  rowType :: string
  elements :: "measurable list"
  rowWidth :: number
  rowHeight :: number
  yPos :: number
  rowXPos :: number
  widthWithConnectedBlocks :: number
  hasInlineInput :: bool
  hasStatement :: bool
  hasExternalInput :: bool
  hasDummyInput :: bool
  hasJaggedEdge :: bool
  rowStatementEdge :: number
  followsStatement :: bool
  startY :: number
  overhangY :: number

text \<open>
  Modelled from the spec: the constructors \<open>InputRow\<close>, \<open>TopRow\<close>, \<open>BottomRow\<close> and
  \<open>SpacerRow\<close> are missing from the sources. A new row has no elements, no flags and
  zero sizes; the type tags of the top and the bottom row are the ones
  \<open>addElemSpacing_\<close> compares with; a spacer row is "sized by" the height and the width
  it is given.
\<close>

definition Row :: "string \<Rightarrow> row" where
  "Row t =
     \<lparr> rowType = t, elements = [], rowWidth = 0, rowHeight = 0, yPos = 0, rowXPos = 0,
       widthWithConnectedBlocks = 0, hasInlineInput = False, hasStatement = False,
       hasExternalInput = False, hasDummyInput = False, hasJaggedEdge = False,
       rowStatementEdge = 0, followsStatement = False, startY = 0, overhangY = 0 \<rparr>"

definition InputRow :: row where
  "InputRow = Row ''input row''"

definition TopRow :: row where
  "TopRow = Row ''top row''"

definition BottomRow :: row where
  "BottomRow = Row ''bottom row''"

definition SpacerRow :: "number \<Rightarrow> number \<Rightarrow> row" where
  "SpacerRow h w = (Row ''between-row spacer'')\<lparr> rowHeight := h, rowWidth := w \<rparr>"

text \<open>The index of the last element that satisfies \<open>P\<close>.\<close>

fun lastIndexWhere :: "('a \<Rightarrow> bool) \<Rightarrow> 'a list \<Rightarrow> nat option" where
  "lastIndexWhere P [] = None"
| "lastIndexWhere P (x # xs) =
     (case lastIndexWhere P xs of
        Some i \<Rightarrow> Some (Suc i)
      | None \<Rightarrow> if P x then Some 0 else None)"

text \<open>
  Modelled from the spec: \<open>Row.getLastSpacer\<close> and \<open>Row.getLastInput\<close> are missing from
  the sources. The spec calls the first "the row's last spacer" and the result of the
  second, on a statement row, "its statement Measurable": the last element that is a
  spacer, and the last element that is an input. Both are \<open>null\<close> when the row has no
  such element; \<open>getLastSpacer\<close> yields the position, since its caller updates the
  element in place.
\<close>

definition getLastSpacer :: "row \<Rightarrow> nat option" where
  "getLastSpacer r = lastIndexWhere isSpacer (elements r)"

definition getLastInput :: "row \<Rightarrow> measurable option" where
  "getLastInput r = map_option (\<lambda>i. elements r ! i) (lastIndexWhere isInput (elements r))"

section \<open>The block as the renderer reads it\<close>

text \<open>
  Modelled from the spec: the block, its inputs, fields and icons, and the constructors
  of the measurables made for them (\<open>Field\<close>, here \<open>FieldElement\<close>, \<open>Icon\<close>, \<open>InlineInput\<close>,
  \<open>StatementInput\<close>, \<open>ExternalValueInput\<close>, \<open>JaggedEdge\<close>, \<open>InRowSpacer\<close>,
  \<open>OutputConnection\<close>) are missing from the sources. The block is "a read-only view of a
  block's logical structure: ordered list of inputs, each with a type tag, a visibility
  flag, an ordered list of fields"; the size that a constructor records is part of the
  view (\<open>fieldRow\<close> holds the size of each field, \<open>inputSize\<close> the size of the measurable
  of the input, \<open>iconSize\<close> that of an icon, \<open>blockOutputConnection\<close> the width of the
  output connection shape, if the block has one). \<open>topRowElements\<close> and
  \<open>bottomRowElements\<close> are the elements that \<open>populate\<close> puts into the top and the
  bottom row. The type tags are those tested in core/renderers/measurables/base.js.
\<close>

record icon =
  collapseHidden :: bool
  iconSize :: "number \<times> number"

record input =
  inputType :: blocklyType
  isVisible :: bool
  fieldRow :: "(number \<times> number) list"
  inputSize :: "number \<times> number"

record block =
  inputList :: "input list"
  getIcons :: "icon list"
  getInputsInline :: bool
  blockIsCollapsed :: bool
  blockIsInsertionMarker :: bool
  blockRTL :: bool
  blockOutputConnection :: "number option"
  topRowElements :: "measurable list"
  bottomRowElements :: "measurable list"

definition sized :: "constants \<Rightarrow> string \<Rightarrow> bool \<Rightarrow> number \<times> number \<Rightarrow> measurable" where
  "sized c t inp sz =
     (Measurable c)\<lparr> isInput := inp, mtype := Some t, width := fst sz, height := snd sz \<rparr>"

definition FieldElement :: "constants \<Rightarrow> number \<times> number \<Rightarrow> measurable" where
  "FieldElement c sz = sized c ''field'' False sz"

definition Icon :: "constants \<Rightarrow> icon \<Rightarrow> measurable" where
  "Icon c ic = sized c ''icon'' False (iconSize ic)"

definition JaggedEdge :: "constants \<Rightarrow> measurable" where
  "JaggedEdge c = sized c ''jagged edge'' False (JAGGED_TEETH c)"

definition InRowSpacer :: "constants \<Rightarrow> number \<Rightarrow> measurable" where
  "InRowSpacer c w = sized c ''in-row spacer'' False (w, SPACER_DEFAULT_HEIGHT c)"

definition InlineInput :: "constants \<Rightarrow> input \<Rightarrow> measurable" where
  "InlineInput c inp = sized c ''inline input'' True (inputSize inp)"

definition StatementInput :: "constants \<Rightarrow> input \<Rightarrow> measurable" where
  "StatementInput c inp = sized c ''statement input'' True (inputSize inp)"

definition ExternalValueInput :: "constants \<Rightarrow> input \<Rightarrow> measurable" where
  "ExternalValueInput c inp = sized c ''external value input'' True (inputSize inp)"

definition OutputConnection :: "constants \<Rightarrow> number \<Rightarrow> measurable" where
  "OutputConnection c w = sized c ''output connection'' False (w, 0)"

definition populate :: "measurable list \<Rightarrow> row \<Rightarrow> row" where
  "populate es r = r\<lparr> elements := elements r @ es \<rparr>"

section \<open>RenderInfo\<close>

text \<open>
  Rows are objects that \<open>this.rows\<close>, \<open>this.topRow\<close> and \<open>this.bottomRow\<close> refer to, and
  every pass updates them in place. \<open>store\<close> maps a reference to the row it denotes,
  \<open>rows\<close>, \<open>topRow\<close> and \<open>bottomRow\<close> hold references, and \<open>nextRef\<close> is the first
  reference not yet given to a row. \<open>infoBlock\<close> is the property \<open>block_\<close>, and \<open>infoWidth\<close>, \<open>infoHeight\<close> and \<open>infoStartY\<close> are
  the properties \<open>width\<close>, \<open>height\<close> and \<open>startY\<close> of the RenderInfo.
\<close>

record renderInfo =
  infoBlock :: block
  outputConnection :: "measurable option"
  isInline :: bool
  isCollapsed :: bool
  isInsertionMarker :: bool
  RTL :: bool
  infoHeight :: number
  widthWithChildren :: number
  infoWidth :: number
  statementEdge :: number
  rows :: "nat list"
  hiddenIcons :: "measurable list"
  topRow :: nat
  bottomRow :: nat
  startX :: number
  infoStartY :: number
  store :: "nat \<Rightarrow> row"
  nextRef :: nat

definition RenderInfo :: "constants \<Rightarrow> block \<Rightarrow> renderInfo" where
  "RenderInfo c b =
     \<lparr> infoBlock = b,
       outputConnection = map_option (OutputConnection c) (blockOutputConnection b),
       isInline = (getInputsInline b \<and> \<not> blockIsCollapsed b),
       isCollapsed = blockIsCollapsed b,
       isInsertionMarker = blockIsInsertionMarker b,
       RTL = blockRTL b,
       infoHeight = 0, widthWithChildren = 0, infoWidth = 0, statementEdge = 0,
       rows = [], hiddenIcons = [],
       topRow = 0, bottomRow = 1,
       startX = 0, infoStartY = 0,
       store = (\<lambda>_. InputRow)(0 := TopRow, 1 := BottomRow),
       nextRef = 2 \<rparr>"

text \<open>\<open>this.rows.push(r)\<close> for a row object that no reference denotes yet.\<close>

definition pushNewRow :: "renderInfo \<Rightarrow> row \<Rightarrow> renderInfo" where
  "pushNewRow info r =
     info\<lparr> rows := rows info @ [nextRef info],
           store := (store info)(nextRef info := r),
           nextRef := Suc (nextRef info) \<rparr>"

text \<open>The rows of a RenderInfo in order, as values.\<close>

definition rowList :: "renderInfo \<Rightarrow> row list" where
  "rowList info = map (store info) (rows info)"

subsection \<open>createRows\<close>

definition shouldStartNewRow :: "renderInfo \<Rightarrow> input \<Rightarrow> input option \<Rightarrow> bool" where
  "shouldStartNewRow info inp lastInput =
     (if lastInput = None then False
      else if inputType inp = NEXT_STATEMENT then True
      else if inputType inp = INPUT_VALUE \<or> inputType inp = DUMMY_INPUT then \<not> isInline info
      else False)"

definition addInput :: "constants \<Rightarrow> renderInfo \<Rightarrow> input \<Rightarrow> row \<Rightarrow> row" where
  "addInput c info inp activeRow =
     (if isInline info \<and> inputType inp = INPUT_VALUE then
        activeRow\<lparr> elements := elements activeRow @ [InlineInput c inp],
                   hasInlineInput := True \<rparr>
      else if inputType inp = NEXT_STATEMENT then
        activeRow\<lparr> elements := elements activeRow @ [StatementInput c inp],
                   hasStatement := True \<rparr>
      else if inputType inp = INPUT_VALUE then
        activeRow\<lparr> elements := elements activeRow @ [ExternalValueInput c inp],
                   hasExternalInput := True \<rparr>
      else if inputType inp = DUMMY_INPUT then
        activeRow\<lparr> hasDummyInput := True \<rparr>
      else activeRow)"

text \<open>The loop over the icons: hidden icons are collected, the others go to the row.\<close>

fun createRows_icons ::
    "constants \<Rightarrow> bool \<Rightarrow> icon list \<Rightarrow> measurable list \<times> row \<Rightarrow> measurable list \<times> row" where
  "createRows_icons c coll [] (hidden, activeRow) = (hidden, activeRow)"
| "createRows_icons c coll (ic # ics) (hidden, activeRow) =
     (if coll \<and> collapseHidden ic
      then createRows_icons c coll ics (hidden @ [Icon c ic], activeRow)
      else createRows_icons c coll ics
             (hidden, activeRow\<lparr> elements := elements activeRow @ [Icon c ic] \<rparr>))"

text \<open>The loop over the inputs; \<open>activeRow\<close> is the row being filled, not yet pushed.\<close>

fun createRows_inputs ::
    "constants \<Rightarrow> input list \<Rightarrow> input option \<Rightarrow> renderInfo \<times> row \<Rightarrow> renderInfo \<times> row" where
  "createRows_inputs c [] lastInput (info, activeRow) = (info, activeRow)"
| "createRows_inputs c (inp # inps) lastInput (info, activeRow) =
     (if \<not> isVisible inp then createRows_inputs c inps lastInput (info, activeRow)
      else
        let (info1, row1) =
              (if shouldStartNewRow info inp lastInput
               then (pushNewRow info activeRow, InputRow)
               else (info, activeRow));
            row2 = row1\<lparr> elements := elements row1 @ map (FieldElement c) (fieldRow inp) \<rparr>;
            row3 = addInput c info1 inp row2
        in createRows_inputs c inps (Some inp) (info1, row3))"

text \<open>
  \<open>createRows_\<close> up to the loop over the inputs: the top row is populated and pushed,
  and the icons are put on a new row.
\<close>

definition createRows_begin :: "constants \<Rightarrow> renderInfo \<Rightarrow> renderInfo \<times> row" where
  "createRows_begin c info =
     (let b = infoBlock info;
          info1 = info\<lparr> store := (store info)
                           (topRow info := populate (topRowElements b) (store info (topRow info))) \<rparr>;
          info2 = info1\<lparr> rows := rows info1 @ [topRow info1] \<rparr>;
          (hidden, activeRow) =
             createRows_icons c (isCollapsed info2) (getIcons b) (hiddenIcons info2, InputRow)
      in (info2\<lparr> hiddenIcons := hidden \<rparr>, activeRow))"

text \<open>
  \<open>createRows_\<close> after the loop over the inputs: the jagged edge of a collapsed block,
  the last row, which is pushed if it has elements, and the bottom row.
\<close>

definition createRows_end :: "constants \<Rightarrow> renderInfo \<times> row \<Rightarrow> renderInfo" where
  "createRows_end c s =
     (case s of (info, activeRow) \<Rightarrow>
        let b = infoBlock info;
            row1 = (if isCollapsed info
                    then activeRow\<lparr> hasJaggedEdge := True,
                                    elements := elements activeRow @ [JaggedEdge c] \<rparr>
                    else activeRow);
            info1 = (if elements row1 \<noteq> [] then pushNewRow info row1 else info);
            info2 = info1\<lparr> store := (store info1)
                             (bottomRow info1 :=
                                populate (bottomRowElements b) (store info1 (bottomRow info1))) \<rparr>
        in info2\<lparr> rows := rows info2 @ [bottomRow info2] \<rparr>)"

definition createRows :: "constants \<Rightarrow> renderInfo \<Rightarrow> renderInfo" where
  "createRows c info =
     createRows_end c
       (createRows_inputs c (inputList (infoBlock info)) None (createRows_begin c info))"

subsection \<open>addElemSpacing\<close>

text \<open>\<open>xs[0]\<close>, which is \<open>undefined\<close> on an empty array.\<close>

definition first :: "'a list \<Rightarrow> 'a option" where
  "first xs = (case xs of [] \<Rightarrow> None | x # _ \<Rightarrow> Some x)"

fun spacedElems :: "constants \<Rightarrow> measurable list \<Rightarrow> measurable list" where
  "spacedElems c [] = []"
| "spacedElems c (e # es) =
     e # InRowSpacer c (getInRowSpacing c (Some e) (first es)) # spacedElems c es"

definition addElemSpacing_row :: "constants \<Rightarrow> row \<Rightarrow> row" where
  "addElemSpacing_row c r =
     (let oldElems = elements r;
          lead = (if rowType r \<noteq> ''top row'' \<and> rowType r \<noteq> ''bottom row''
                  then [InRowSpacer c (getInRowSpacing c None (first oldElems))]
                  else [])
      in r\<lparr> elements := lead @ spacedElems c oldElems \<rparr>)"

text \<open>A loop over \<open>this.rows\<close> that updates each row object in turn.\<close>

fun forRows :: "(row \<Rightarrow> row) \<Rightarrow> nat list \<Rightarrow> (nat \<Rightarrow> row) \<Rightarrow> (nat \<Rightarrow> row)" where
  "forRows f [] st = st"
| "forRows f (a # as) st = forRows f as (st(a := f (st a)))"

definition addElemSpacing :: "constants \<Rightarrow> renderInfo \<Rightarrow> renderInfo" where
  "addElemSpacing c info =
     info\<lparr> store := forRows (addElemSpacing_row c) (rows info) (store info) \<rparr>"


subsection \<open>computeBounds\<close>

text \<open>
  \<open>Row.measure\<close> is missing from the sources. It is a parameter of the model: the
  function \<open>ms\<close> gives the width, the height and the \<open>widthWithConnectedBlocks\<close> that
  \<open>row.measure()\<close> records on a row, and every theorem holds for each such function.
\<close>

type_synonym rowMeasure = "row \<Rightarrow> number \<times> number \<times> number"

text \<open>
  The sums and differences of the passes from \<open>computeBounds_\<close> on are those of doubles:
  the exact result, rounded. The rounding is the parameter \<open>fl\<close> of these passes, and a
  theorem holds for every such function unless it states what it assumes of it.
  \<open>Math.max\<close> rounds nothing.
\<close>

type_synonym rounding = "number \<Rightarrow> number"

definition measured :: "rowMeasure \<Rightarrow> row \<Rightarrow> row" where
  "measured ms r =
     (case ms r of (w, h, wc) \<Rightarrow>
        r\<lparr> rowWidth := w, rowHeight := h, widthWithConnectedBlocks := wc \<rparr>)"

text \<open>\<open>x.width\<close> for the result \<open>x\<close> of \<open>row.getLastInput()\<close>, which throws on \<open>null\<close>.\<close>

definition lastInputWidth :: "row \<Rightarrow> error + number" where
  "lastInputWidth r =
     (case getLastInput r of
        None \<Rightarrow> Inl (TypeError ''statementInput is null'')
      | Some statementInput \<Rightarrow> Inr (width statementInput))"

text \<open>
  The first loop of \<open>computeBounds_\<close>; the state is the store and the variables
  \<open>widestStatementRowFields\<close>, \<open>blockWidth\<close> and \<open>widestRowWithConnectedBlocks\<close>.
\<close>

fun computeBounds_loop ::
    "rounding \<Rightarrow> rowMeasure \<Rightarrow> nat list \<Rightarrow> (nat \<Rightarrow> row) \<times> number \<times> number \<times> number
       \<Rightarrow> error + ((nat \<Rightarrow> row) \<times> number \<times> number \<times> number)" where
  "computeBounds_loop fl ms [] s = Inr s"
| "computeBounds_loop fl ms (a # as)
       (st, widestStatementRowFields, blockWidth, widestRowWithConnectedBlocks) =
     (let r = measured ms (st a);
          st1 = st(a := r);
          blockWidth1 = max blockWidth (rowWidth r)
      in bindE (if hasStatement r
                then bindE (lastInputWidth r)
                       (\<lambda>w. Inr (max widestStatementRowFields (fl (rowWidth r - w))))
                else Inr widestStatementRowFields)
           (\<lambda>widest1. computeBounds_loop fl ms as
               (st1, widest1, blockWidth1,
                max widestRowWithConnectedBlocks (widthWithConnectedBlocks r))))"

definition setStatementEdge :: "number \<Rightarrow> row \<Rightarrow> row" where
  "setStatementEdge e r = (if hasStatement r then r\<lparr> rowStatementEdge := e \<rparr> else r)"

definition computeBounds :: "rounding \<Rightarrow> rowMeasure \<Rightarrow> renderInfo \<Rightarrow> error + renderInfo" where
  "computeBounds fl ms info =
     bindE (computeBounds_loop fl ms (rows info) (store info, 0, 0, 0))
       (\<lambda>(st, widestStatementRowFields, blockWidth, widestRowWithConnectedBlocks).
          let info1 = info\<lparr> store := st, statementEdge := widestStatementRowFields,
                            infoWidth := blockWidth \<rparr>;
              info2 = info1\<lparr> store := forRows (setStatementEdge (statementEdge info1))
                                         (rows info1) (store info1) \<rparr>;
              info3 = info2\<lparr> widthWithChildren :=
                                max blockWidth widestRowWithConnectedBlocks \<rparr>
          in Inr (case outputConnection info3 of
                    None \<Rightarrow> info3
                  | Some oc \<Rightarrow>
                      info3\<lparr> startX := width oc,
                             infoWidth := fl (infoWidth info3 + width oc),
                             widthWithChildren := fl (widthWithChildren info3 + width oc) \<rparr>))"

subsection \<open>alignRowElements\<close>

definition addAlignmentPadding :: "rounding \<Rightarrow> row \<Rightarrow> number \<Rightarrow> row" where
  "addAlignmentPadding fl r missingSpace =
     (case getLastSpacer r of
        None \<Rightarrow> r
      | Some i \<Rightarrow>
          r\<lparr> elements :=
               (elements r)[i := (elements r ! i)\<lparr> width := fl (width (elements r ! i) + missingSpace) \<rparr>],
             rowWidth := fl (rowWidth r + missingSpace) \<rparr>)"

text \<open>
  The body of the loop of \<open>alignRowElements_\<close>. \<open>if (missingSpace)\<close> holds for every
  number other than zero; the call of \<open>console.log\<close> changes nothing.
\<close>

definition alignRow :: "rounding \<Rightarrow> renderInfo \<Rightarrow> row \<Rightarrow> error + row" where
  "alignRow fl info r =
     (if \<not> hasInlineInput r then
        bindE (if hasStatement r
               then bindE (lastInputWidth r)
                      (\<lambda>w. Inr (fl (rowWidth r - w), fl (statementEdge info - startX info)))
               else Inr (rowWidth r, fl (infoWidth info - startX info)))
          (\<lambda>(currentWidth, desiredWidth).
             let missingSpace = fl (desiredWidth - currentWidth)
             in if missingSpace \<noteq> 0 then Inr (addAlignmentPadding fl r missingSpace)
                else Inr r)
      else Inr r)"

fun alignRowElements_loop ::
    "rounding \<Rightarrow> renderInfo \<Rightarrow> nat list \<Rightarrow> (nat \<Rightarrow> row) \<Rightarrow> error + (nat \<Rightarrow> row)" where
  "alignRowElements_loop fl info [] st = Inr st"
| "alignRowElements_loop fl info (a # as) st =
     bindE (alignRow fl info (st a)) (\<lambda>r. alignRowElements_loop fl info as (st(a := r)))"

definition alignRowElements :: "rounding \<Rightarrow> renderInfo \<Rightarrow> error + renderInfo" where
  "alignRowElements fl info =
     bindE (alignRowElements_loop fl info (rows info) (store info))
       (\<lambda>st. Inr (info\<lparr> store := st \<rparr>))"

subsection \<open>addRowSpacing\<close>

definition getSpacerRowWidth :: "rounding \<Rightarrow> renderInfo \<Rightarrow> row \<Rightarrow> row \<Rightarrow> number" where
  "getSpacerRowWidth fl info prev next = fl (infoWidth info - startX info)"

definition getSpacerRowHeight :: "constants \<Rightarrow> row \<Rightarrow> row \<Rightarrow> number" where
  "getSpacerRowHeight c prev next = MEDIUM_PADDING c"

definition makeSpacerRow ::
    "constants \<Rightarrow> rounding \<Rightarrow> renderInfo \<Rightarrow> row \<Rightarrow> row \<Rightarrow> row" where
  "makeSpacerRow c fl info prev next =
     (let h = getSpacerRowHeight c prev next;
          w = getSpacerRowWidth fl info prev next;
          spacer = SpacerRow h w
      in if hasStatement prev then spacer\<lparr> followsStatement := True \<rparr> else spacer)"

text \<open>The loop over \<open>oldRows\<close>; the last row is the one with nothing after it.\<close>

fun addRowSpacing_loop ::
    "constants \<Rightarrow> rounding \<Rightarrow> nat list \<Rightarrow> renderInfo \<Rightarrow> renderInfo" where
  "addRowSpacing_loop c fl [] info = info"
| "addRowSpacing_loop c fl [a] info = info\<lparr> rows := rows info @ [a] \<rparr>"
| "addRowSpacing_loop c fl (a # b # rest) info =
     (let info1 = info\<lparr> rows := rows info @ [a] \<rparr>
      in addRowSpacing_loop c fl (b # rest)
           (pushNewRow info1 (makeSpacerRow c fl info1 (store info1 a) (store info1 b))))"

definition addRowSpacing :: "constants \<Rightarrow> rounding \<Rightarrow> renderInfo \<Rightarrow> renderInfo" where
  "addRowSpacing c fl info = addRowSpacing_loop c fl (rows info) (info\<lparr> rows := [] \<rparr>)"

subsection \<open>finalize\<close>

definition getElemCenterline :: "rounding \<Rightarrow> row \<Rightarrow> measurable \<Rightarrow> number" where
  "getElemCenterline fl r elem = fl (yPos r + fl (rowHeight r / 2))"

text \<open>The inner loop: \<open>xCursor\<close> runs over the elements of the row.\<close>

fun finalize_elems ::
    "rounding \<Rightarrow> row \<Rightarrow> number \<Rightarrow> measurable list \<Rightarrow> measurable list" where
  "finalize_elems fl r xCursor [] = []"
| "finalize_elems fl r xCursor (elem # es) =
     elem\<lparr> xPos := xCursor, centerline := getElemCenterline fl r elem \<rparr>
       # finalize_elems fl r (fl (xCursor + width elem)) es"

definition finalize_row :: "rounding \<Rightarrow> number \<Rightarrow> number \<Rightarrow> row \<Rightarrow> row" where
  "finalize_row fl sx yCursor r0 =
     (let r = r0\<lparr> yPos := yCursor, rowXPos := sx \<rparr>
      in r\<lparr> elements := finalize_elems fl r (rowXPos r) (elements r) \<rparr>)"

text \<open>The outer loop; the state is the store, \<open>widestRowWithConnectedBlocks\<close> and
  \<open>yCursor\<close>.\<close>

fun finalize_loop ::
    "rounding \<Rightarrow> number \<Rightarrow> nat list \<Rightarrow> (nat \<Rightarrow> row) \<times> number \<times> number
       \<Rightarrow> (nat \<Rightarrow> row) \<times> number \<times> number" where
  "finalize_loop fl sx [] s = s"
| "finalize_loop fl sx (a # as) (st, widestRowWithConnectedBlocks, yCursor) =
     (let r = finalize_row fl sx yCursor (st a)
      in finalize_loop fl sx as
           (st(a := r),
            max widestRowWithConnectedBlocks (widthWithConnectedBlocks r),
            fl (yCursor + rowHeight r)))"

definition finalize :: "rounding \<Rightarrow> renderInfo \<Rightarrow> renderInfo" where
  "finalize fl info =
     (case finalize_loop fl (startX info) (rows info) (store info, 0, 0) of
        (st, widestRowWithConnectedBlocks, yCursor) \<Rightarrow>
          info\<lparr> store := st,
                widthWithChildren := fl (widestRowWithConnectedBlocks + startX info),
                infoHeight := yCursor,
                infoStartY := startY (st (topRow info)) \<rparr>)"

subsection \<open>measure\<close>

text \<open>\<open>RenderInfo.prototype.measure\<close>; the name \<open>measure\<close> is taken in HOL.\<close>

definition measureInfo ::
    "constants \<Rightarrow> rounding \<Rightarrow> rowMeasure \<Rightarrow> renderInfo \<Rightarrow> error + renderInfo" where
  "measureInfo c fl ms info =
     bindE (computeBounds fl ms (addElemSpacing c (createRows c info)))
       (\<lambda>info1. bindE (alignRowElements fl info1)
          (\<lambda>info2. Inr (finalize fl (addRowSpacing c fl info2))))"

section \<open>The drawer (core/renderers/zelos/drawer.js)\<close>

text \<open>
  Modelled from the spec: \<open>Blockly.utils.svgPaths\<close> is missing from the sources. The
  outline is "an ordered sequence of path-drawing commands"; \<open>outlinePath_\<close> is kept
  as the sequence of the pieces appended to it, a piece being the result of
  \<open>moveBy\<close>, of \<open>lineOnAxis\<close>, or a path fragment of the constant provider or of a
  connection shape. \<open>positionPreviousConnection_\<close> and \<open>positionNextConnection_\<close> of
  the base drawer are missing as well; they do not touch \<open>outlinePath_\<close>.
\<close>

datatype pathPiece = MoveBy number number | LineOnAxis string number | Path string

text \<open>\<open>elem.shape.pathLeft\<close> and \<open>elem.shape.pathRight\<close>.\<close>

definition shapePath :: "(shape \<Rightarrow> string) \<Rightarrow> measurable \<Rightarrow> error + string" where
  "shapePath sel elem =
     (case shape elem of
        None \<Rightarrow> Inl (TypeError ''shape is undefined'')
      | Some s \<Rightarrow> Inr (sel s))"

text \<open>The body of the loop of \<open>drawTop_\<close>.\<close>

definition drawTop_elem ::
    "constants \<Rightarrow> measurable \<Rightarrow> pathPiece list \<Rightarrow> error + pathPiece list" where
  "drawTop_elem c elem outlinePath =
     bindE (andAlso (isRoundedCorner elem) (notE (isRightCorner elem)))
       (\<lambda>leftRound.
          if leftRound then Inr (outlinePath @ [Path (topLeft (OUTSIDE_CORNERS c))])
          else bindE (andAlso (isRoundedCorner elem) (isRightCorner elem))
            (\<lambda>rightRound.
               if rightRound then Inr (outlinePath @ [Path (topRight (OUTSIDE_CORNERS c))])
               else if mtype elem = Some ''previous connection''
               then bindE (shapePath pathLeft elem) (\<lambda>p. Inr (outlinePath @ [Path p]))
               else if mtype elem = Some ''hat''
               then Inr (outlinePath @ [Path (START_HAT_path c)])
               else if isSpacer elem
               then Inr (outlinePath @ [LineOnAxis ''h'' (width elem)])
               else Inr outlinePath))"

fun drawTop_loop ::
    "constants \<Rightarrow> measurable list \<Rightarrow> pathPiece list \<Rightarrow> error + pathPiece list" where
  "drawTop_loop c [] outlinePath = Inr outlinePath"
| "drawTop_loop c (elem # es) outlinePath =
     bindE (drawTop_elem c elem outlinePath) (drawTop_loop c es)"

definition drawTop :: "constants \<Rightarrow> renderInfo \<Rightarrow> pathPiece list \<Rightarrow> error + pathPiece list" where
  "drawTop c info outlinePath =
     (let top = store info (topRow info)
      in bindE (drawTop_loop c (elements top)
                  (outlinePath @ [MoveBy (rowXPos top) (infoStartY info)]))
           (\<lambda>p. Inr (p @ [LineOnAxis ''v'' (rowHeight top)])))"

text \<open>The body of the loop of \<open>drawBottom_\<close>.\<close>

definition drawBottom_elem ::
    "constants \<Rightarrow> row \<Rightarrow> measurable \<Rightarrow> pathPiece list \<Rightarrow> error + pathPiece list" where
  "drawBottom_elem c bottom elem outlinePath =
     (if isNextConnection elem
      then bindE (shapePath pathRight elem) (\<lambda>p. Inr (outlinePath @ [Path p]))
      else if mtype elem = Some ''square corner left''
      then Inr (outlinePath @ [LineOnAxis ''H'' (rowXPos bottom)])
      else bindE (andAlso (isRoundedCorner elem) (notE (isRightCorner elem)))
        (\<lambda>leftRound.
           if leftRound then Inr (outlinePath @ [Path (bottomLeft (OUTSIDE_CORNERS c))])
           else bindE (andAlso (isRoundedCorner elem) (isRightCorner elem))
             (\<lambda>rightRound.
                if rightRound
                then Inr (outlinePath @ [Path (bottomRight (OUTSIDE_CORNERS c))])
                else if isSpacer elem
                then Inr (outlinePath @ [LineOnAxis ''h'' (width elem * -1)])
                else Inr outlinePath)))"

fun drawBottom_loop ::
    "constants \<Rightarrow> row \<Rightarrow> measurable list \<Rightarrow> pathPiece list \<Rightarrow> error + pathPiece list" where
  "drawBottom_loop c bottom [] outlinePath = Inr outlinePath"
| "drawBottom_loop c bottom (elem # es) outlinePath =
     bindE (drawBottom_elem c bottom elem outlinePath) (drawBottom_loop c bottom es)"

text \<open>The loop of \<open>drawBottom_\<close> walks the elements from the last to the first.\<close>

definition drawBottom ::
    "constants \<Rightarrow> renderInfo \<Rightarrow> pathPiece list \<Rightarrow> error + pathPiece list" where
  "drawBottom c info outlinePath =
     (let bottom = store info (bottomRow info)
      in drawBottom_loop c bottom (rev (elements bottom))
           (outlinePath @ [LineOnAxis ''v'' (rowHeight bottom - overhangY bottom)]))"


section \<open>A concrete renderer and concrete blocks\<close>

text \<open>
  Values to run the model on. Modelled from the spec: \<open>Row_measure\<close> stands for the
  missing \<open>Row.measure\<close> where a run needs one, "every Row's total measured width
  equals the sum of its Measurables' widths", with the largest element height as the
  height of the row and no connected blocks.
\<close>

definition demoConstants :: constants where
  "demoConstants =
     \<lparr> NO_PADDING = 0, MEDIUM_PADDING = 5, LARGE_PADDING = 10, CORNER_RADIUS = 4,
       NOTCH_OFFSET_LEFT = 12,
       NOTCH = \<lparr> shapeWidth = 36, shapeHeight = 8, pathLeft = ''notch-left'',
                 pathRight = ''notch-right'' \<rparr>,
       OUTSIDE_CORNERS = \<lparr> topLeft = ''tl'', topRight = ''tr'', bottomLeft = ''bl'',
                           bottomRight = ''br'' \<rparr>,
       START_HAT_path = ''hat'', JAGGED_TEETH = (6, 12), SPACER_DEFAULT_HEIGHT = 15 \<rparr>"

definition Row_measure :: rowMeasure where
  "Row_measure r =
     (sum_list (map width (elements r)),
      fold max (map height (elements r)) 0,
      sum_list (map width (elements r)))"

text \<open>A visible input of the given type with one field of size 20 by 10.\<close>

definition demoInput :: "blocklyType \<Rightarrow> input" where
  "demoInput t =
     \<lparr> inputType = t, isVisible = True, fieldRow = [(20, 10)], inputSize = (30, 24) \<rparr>"


definition demoShapes :: "string shapeTable" where
  "demoShapes =
     \<lparr> TRIANGLE = ''triangle'', PUZZLE_TAB = ''puzzle tab'', HEXAGONAL = ''hexagonal'',
       ROUNDED = ''rounded'', NOTCH_shape = ''notch'' \<rparr>"


definition demoIcon :: icon where
  "demoIcon = \<lparr> collapseHidden = False, iconSize = (16, 16) \<rparr>"

text \<open>A block with the given icons, inputs and output connection width, whose top and
  bottom rows get the two round corners of the Zelos renderer.\<close>

definition demoBlock :: "icon list \<Rightarrow> input list \<Rightarrow> number option \<Rightarrow> block" where
  "demoBlock ics inps oc =
     \<lparr> inputList = inps, getIcons = ics, getInputsInline = False, blockIsCollapsed = False,
       blockIsInsertionMarker = False, blockRTL = False, blockOutputConnection = oc,
       topRowElements = [RoundCorner demoConstants, RightRoundCorner demoConstants],
       bottomRowElements = [RoundCorner demoConstants, RightRoundCorner demoConstants] \<rparr>"

text \<open>A block whose top and bottom rows hold a field after the left corner.\<close>

definition fieldCornerBlock :: block where
  "fieldCornerBlock =
     (demoBlock [] [] None)
       \<lparr> topRowElements := [RoundCorner demoConstants, FieldElement demoConstants (20, 10)],
         bottomRowElements := [RoundCorner demoConstants, FieldElement demoConstants (20, 10)] \<rparr>"

text \<open>A block whose only input is a statement input, with an output connection of the
  given width if any.\<close>

definition statementBlock :: "number option \<Rightarrow> block" where
  "statementBlock oc = demoBlock [] [demoInput NEXT_STATEMENT] oc"

text \<open>A block with one icon and, as its only input, a statement input.\<close>

definition iconStatementBlock :: block where
  "iconStatementBlock = demoBlock [demoIcon] [demoInput NEXT_STATEMENT] None"


section \<open>The rows of the inputs\<close>

text \<open>
  The rule that the loop of \<open>createRows_\<close> over the inputs is compared with. A visible
  input after the first begins a row when it is a statement input, or a value or dummy
  input of a block that is not inline; \<open>inputGroups\<close> cuts the visible inputs into
  the groups that share a row, the first visible input always in the first group.
  \<open>inputElems\<close> are the measurables an input brings: its fields, then the measurable of
  the input itself, which \<open>addInput_\<close> chooses.
\<close>

definition beginsRow :: "bool \<Rightarrow> input \<Rightarrow> bool" where
  "beginsRow inline inp =
     (inputType inp = NEXT_STATEMENT \<or>
      (inputType inp = INPUT_VALUE \<or> inputType inp = DUMMY_INPUT) \<and> \<not> inline)"

fun groupInputs :: "bool \<Rightarrow> input list \<Rightarrow> input list \<Rightarrow> input list list" where
  "groupInputs inline cur [] = [cur]"
| "groupInputs inline cur (i # is) =
     (if beginsRow inline i then cur # groupInputs inline [i] is
      else groupInputs inline (cur @ [i]) is)"

definition inputGroups :: "bool \<Rightarrow> input list \<Rightarrow> input list list" where
  "inputGroups inline inps =
     (case filter isVisible inps of [] \<Rightarrow> [[]] | i # is \<Rightarrow> groupInputs inline [i] is)"

definition inputElems :: "constants \<Rightarrow> bool \<Rightarrow> input \<Rightarrow> measurable list" where
  "inputElems c inline inp =
     map (FieldElement c) (fieldRow inp) @
     (if inline \<and> inputType inp = INPUT_VALUE then [InlineInput c inp]
      else if inputType inp = NEXT_STATEMENT then [StatementInput c inp]
      else if inputType inp = INPUT_VALUE then [ExternalValueInput c inp]
      else [])"

definition groupElems :: "constants \<Rightarrow> bool \<Rightarrow> input list \<Rightarrow> measurable list" where
  "groupElems c inline g = concat (map (inputElems c inline) g)"

section \<open>Invariants of a render pass\<close>

text \<open>
  Predicates used in the proofs below; none of them is part of the program.
\<close>

text \<open>
  The sum of \<open>ws\<close> as a loop of the pass takes it: added to \<open>x\<close> one after the other,
  each sum rounded.
\<close>

definition runningSum :: "rounding \<Rightarrow> number \<Rightarrow> number list \<Rightarrow> number" where
  "runningSum fl x ws = foldl (\<lambda>s w. fl (s + w)) x ws"

definition plainElems :: "row \<Rightarrow> bool" where
  "plainElems r = (\<forall>e\<in>set (elements r). \<not> (isInput e \<and> isSpacer e))"

definition rowSane :: "row \<Rightarrow> bool" where
  "rowSane r = (hasStatement r \<longrightarrow> plainElems r)"

definition hasInput :: "row \<Rightarrow> bool" where
  "hasInput r = (hasStatement r \<longrightarrow> (\<exists>e\<in>set (elements r). isInput e))"

definition refsOK :: "renderInfo \<Rightarrow> bool" where
  "refsOK info = (distinct (rows info) \<and> (\<forall>a\<in>set (rows info). a < nextRef info))"

text \<open>The invariant of the loop over the inputs, started on a new RenderInfo.\<close>

definition loopInv :: "renderInfo \<Rightarrow> bool" where
  "loopInv info =
     (distinct (rows info) \<and> (\<forall>a\<in>set (rows info). a < nextRef info \<and> a \<noteq> 1) \<and>
      2 \<le> nextRef info \<and> (\<forall>a\<in>set (rows info). rowSane (store info a)) \<and>
      \<not> hasStatement (store info 1) \<and> topRow info = 0 \<and> bottomRow info = 1 \<and>
      0 \<in> set (rows info) \<and> rowType (store info 0) = ''top row'' \<and>
      rowType (store info 1) = ''bottom row'')"

definition freshRows :: "renderInfo \<Rightarrow> bool" where
  "freshRows info =
     (refsOK info \<and> (\<forall>a\<in>set (rows info). rowSane (store info a)) \<and>
      topRow info \<in> set (rows info) \<and> bottomRow info \<in> set (rows info) \<and>
      topRow info \<noteq> bottomRow info \<and>
      rowType (store info (topRow info)) = ''top row'' \<and>
      rowType (store info (bottomRow info)) = ''bottom row'')"

definition leadSpacer :: "row \<Rightarrow> bool" where
  "leadSpacer r =
     (rowType r \<noteq> ''top row'' \<and> rowType r \<noteq> ''bottom row'' \<or> elements r \<noteq> [] \<longrightarrow>
        getLastSpacer r \<noteq> None)"

definition alignable :: "row \<Rightarrow> bool" where
  "alignable r = (rowSane r \<and> leadSpacer r)"

definition aligned :: "number \<Rightarrow> number \<Rightarrow> row \<Rightarrow> bool" where
  "aligned W E r =
     (\<not> hasInlineInput r \<and>
      (rowType r = ''top row'' \<or> rowType r = ''bottom row'' \<longrightarrow> elements r \<noteq> []) \<longrightarrow>
        (if hasStatement r
         then \<exists>s. getLastInput r = Some s \<and> rowWidth r - width s = E
         else rowWidth r = W))"

section \<open>Arrays\<close>

lemma arrayIndexOfFrom_range:
  "arrayIndexOfFrom xs x i = -1 \<or> i \<le> arrayIndexOfFrom xs x i"
  by (induction xs arbitrary: i) (auto, force)

lemma arrayIndexOfFrom_mem:
  "0 \<le> i \<Longrightarrow> (arrayIndexOfFrom xs x i \<noteq> -1) = (x \<in> set xs)"
proof (induction xs arbitrary: i)
  case Nil
  then show ?case by simp
next
  case (Cons y ys)
  then show ?case by auto
qed

lemma arrayIndexOf_mem: "(arrayIndexOf xs x \<noteq> -1) = (x \<in> set xs)"
  by (simp add: arrayIndexOf_def arrayIndexOfFrom_mem)

section \<open>Spacing inside a row\<close>

text \<open>
  C5. \<open>getInRowSpacing_(prev, next)\<close> is \<open>NO_PADDING\<close> when \<open>prev\<close> is an external
  value input and there is no \<open>next\<close>, \<open>LARGE_PADDING\<close> when \<open>prev\<close> is an inline input
  and there is no \<open>next\<close>, \<open>NO_PADDING\<close> when \<open>prev\<close> is a statement input and there is
  no \<open>next\<close>, and \<open>MEDIUM_PADDING\<close> in every other case. An input of a kind is a
  measurable with \<open>isInput\<close> set and the type tag of that kind.
\<close>

theorem getInRowSpacing_policy:
  "(isInput p \<and> isExternalInput p \<longrightarrow> getInRowSpacing c (Some p) None = NO_PADDING c) \<and>
   (isInput p \<and> isInlineInput p \<longrightarrow> getInRowSpacing c (Some p) None = LARGE_PADDING c) \<and>
   (isInput p \<and> isStatementInput p \<longrightarrow> getInRowSpacing c (Some p) None = NO_PADDING c) \<and>
   (\<not> (\<exists>q. prev = Some q \<and> next = None \<and> isInput q \<and>
            (isExternalInput q \<or> isInlineInput q \<or> isStatementInput q))
      \<longrightarrow> getInRowSpacing c prev next = MEDIUM_PADDING c)"
  by (cases prev)
     (auto simp: getInRowSpacing_def isExternalInput_def isInlineInput_def isStatementInput_def)

theorem getInRowSpacing_policy_witness:
  "getInRowSpacing demoConstants
      (Some (ExternalValueInput demoConstants (demoInput INPUT_VALUE))) None = 0 \<and>
   getInRowSpacing demoConstants
      (Some (InlineInput demoConstants (demoInput INPUT_VALUE))) None = 10 \<and>
   getInRowSpacing demoConstants
      (Some (StatementInput demoConstants (demoInput NEXT_STATEMENT))) None = 0 \<and>
   getInRowSpacing demoConstants
      (Some (StatementInput demoConstants (demoInput NEXT_STATEMENT)))
      (Some (FieldElement demoConstants (20, 10))) = 5"
proof -
  let ?c = demoConstants
  have e: "isInput (ExternalValueInput ?c (demoInput INPUT_VALUE)) \<and>
           isExternalInput (ExternalValueInput ?c (demoInput INPUT_VALUE))"
    by (simp add: ExternalValueInput_def sized_def isExternalInput_def)
  have i: "isInput (InlineInput ?c (demoInput INPUT_VALUE)) \<and>
           isInlineInput (InlineInput ?c (demoInput INPUT_VALUE))"
    by (simp add: InlineInput_def sized_def isInlineInput_def)
  have s: "isInput (StatementInput ?c (demoInput NEXT_STATEMENT)) \<and>
           isStatementInput (StatementInput ?c (demoInput NEXT_STATEMENT))"
    by (simp add: StatementInput_def sized_def isStatementInput_def)
  have m: "\<not> (\<exists>q. Some (StatementInput ?c (demoInput NEXT_STATEMENT)) = Some q \<and>
              Some (FieldElement ?c (20, 10)) = None \<and> isInput q \<and>
              (isExternalInput q \<or> isInlineInput q \<or> isStatementInput q))"
    by simp
  from e i s m
    getInRowSpacing_policy [of "ExternalValueInput ?c (demoInput INPUT_VALUE)" ?c]
    getInRowSpacing_policy [of "InlineInput ?c (demoInput INPUT_VALUE)" ?c]
    getInRowSpacing_policy [of "StatementInput ?c (demoInput NEXT_STATEMENT)" ?c
       "Some (StatementInput ?c (demoInput NEXT_STATEMENT))" "Some (FieldElement ?c (20, 10))"]
  show ?thesis by (simp add: demoConstants_def)
qed

section \<open>The shape of a connection\<close>

text \<open>
  C6. In both revisions of \<open>shapeFor\<close>: a connection of type input value or output value
  whose check list contains \<open>Boolean\<close> gets the hexagonal shape (the triangle in the
  earlier revision); a previous or next statement connection gets the notch; every other
  connection type makes \<open>shapeFor\<close> throw \<open>Error('Unknown type')\<close>.
\<close>

theorem shapeFor_cases:
  "((connType conn = INPUT_VALUE \<or> connType conn = OUTPUT_VALUE) \<and>
      (\<exists>cs. getCheck conn = Some cs \<and> ''Boolean'' \<in> set cs)
      \<longrightarrow> shapeFor this conn = Inr (HEXAGONAL this) \<and>
          shapeFor_triangle g this conn = Inr (TRIANGLE g)) \<and>
   (connType conn = PREVIOUS_STATEMENT \<or> connType conn = NEXT_STATEMENT
      \<longrightarrow> shapeFor this conn = Inr (NOTCH_shape this) \<and>
          shapeFor_triangle g this conn = Inr (NOTCH_shape this)) \<and>
   (connType conn \<notin> {INPUT_VALUE, OUTPUT_VALUE, PREVIOUS_STATEMENT, NEXT_STATEMENT}
      \<longrightarrow> shapeFor this conn = Inl (Error ''Unknown type'') \<and>
          shapeFor_triangle g this conn = Inl (Error ''Unknown type''))"
  by (cases "connType conn")
     (auto simp: shapeFor_def shapeFor_triangle_def arrayIndexOf_mem)

theorem shapeFor_cases_witness:
  "shapeFor demoShapes \<lparr> connType = OUTPUT_VALUE, getCheck = Some [''Number'', ''Boolean''] \<rparr>
     = Inr ''hexagonal'' \<and>
   shapeFor_triangle demoShapes demoShapes
       \<lparr> connType = INPUT_VALUE, getCheck = Some [''Boolean''] \<rparr>
     = Inr ''triangle'' \<and>
   shapeFor demoShapes \<lparr> connType = NEXT_STATEMENT, getCheck = None \<rparr> = Inr ''notch'' \<and>
   shapeFor demoShapes \<lparr> connType = DUMMY_INPUT, getCheck = None \<rparr>
     = Inl (Error ''Unknown type'') \<and>
   shapeFor_triangle demoShapes demoShapes \<lparr> connType = OTHER_TYPE 7, getCheck = None \<rparr>
     = Inl (Error ''Unknown type'')"
  using
    shapeFor_cases [of "\<lparr> connType = OUTPUT_VALUE, getCheck = Some [''Number'', ''Boolean''] \<rparr>"
                       demoShapes demoShapes]
    shapeFor_cases [of "\<lparr> connType = INPUT_VALUE, getCheck = Some [''Boolean''] \<rparr>"
                       demoShapes demoShapes]
    shapeFor_cases [of "\<lparr> connType = NEXT_STATEMENT, getCheck = None \<rparr>" demoShapes demoShapes]
    shapeFor_cases [of "\<lparr> connType = DUMMY_INPUT, getCheck = None \<rparr>" demoShapes demoShapes]
    shapeFor_cases [of "\<lparr> connType = OTHER_TYPE 7, getCheck = None \<rparr>" demoShapes demoShapes]
  by (simp add: demoShapes_def)

section \<open>The Zelos right round corner\<close>

text \<open>
  C10. For the measurable that \<open>Blockly.zelos.RightRoundCorner\<close> builds (type
  \<open>right round corner\<close>), \<open>isCorner()\<close> is true, but \<open>isRoundedCorner()\<close> is false, since
  the type does not start with \<open>round corner\<close>, and \<open>isRightCorner()\<close> is false, since the
  type does not contain \<open>corner right\<close>. Neither rounded-corner condition of the loops of
  \<open>drawTop_\<close> and \<open>drawBottom_\<close> holds for it, and both loops leave the outline as it is.
\<close>

theorem rightRoundCorner_classification:
  "isCorner (RightRoundCorner c) = Inr True \<and>
   isRoundedCorner (RightRoundCorner c) = Inr False \<and>
   isRightCorner (RightRoundCorner c) = Inr False \<and>
   andAlso (isRoundedCorner (RightRoundCorner c)) (notE (isRightCorner (RightRoundCorner c)))
     = Inr False \<and>
   andAlso (isRoundedCorner (RightRoundCorner c)) (isRightCorner (RightRoundCorner c))
     = Inr False \<and>
   drawTop_elem c (RightRoundCorner c) outlinePath = Inr outlinePath \<and>
   drawBottom_elem c bottom (RightRoundCorner c) outlinePath = Inr outlinePath"
  by (simp add: RightRoundCorner_def Measurable_def isCorner_def isRoundedCorner_def
        isRightCorner_def indexOf_def andAlso_def notE_def bindE_def drawTop_elem_def
        drawBottom_elem_def isSpacer_def isNextConnection_def)

section \<open>The row walks of the drawer\<close>

lemma bindE_simps [simp]:
  "bindE (Inl e) f = Inl e" "bindE (Inr v) f = f v"
  by (simp_all add: bindE_def)

lemma drawTop_loop_append:
  "drawTop_loop c (xs @ ys) p = bindE (drawTop_loop c xs p) (drawTop_loop c ys)"
proof (induction xs arbitrary: p)
  case Nil
  then show ?case by simp
next
  case (Cons x xs)
  then show ?case by (cases "drawTop_elem c x p") simp_all
qed

lemma drawBottom_loop_append:
  "drawBottom_loop c b (xs @ ys) p = bindE (drawBottom_loop c b xs p) (drawBottom_loop c b ys)"
proof (induction xs arbitrary: p)
  case Nil
  then show ?case by simp
next
  case (Cons x xs)
  then show ?case by (cases "drawBottom_elem c b x p") simp_all
qed

lemma drawTop_elem_unmatched:
  assumes "mtype elem = Some t" "indexOf t ''round corner'' \<noteq> 0"
    "t \<noteq> ''previous connection''" "t \<noteq> ''hat''" "\<not> isSpacer elem"
  shows "drawTop_elem c elem p = Inr p"
  using assms
  by (simp add: drawTop_elem_def andAlso_def notE_def isRoundedCorner_def)

lemma drawBottom_elem_unmatched:
  assumes "mtype elem = Some t" "indexOf t ''round corner'' \<noteq> 0"
    "t \<noteq> ''next connection''" "t \<noteq> ''square corner left''" "\<not> isSpacer elem"
  shows "drawBottom_elem c b elem p = Inr p"
  using assms
  by (simp add: drawBottom_elem_def andAlso_def notE_def isRoundedCorner_def
        isNextConnection_def)

lemma drawBottom_loop_xPos:
  "rowXPos b = rowXPos b' \<Longrightarrow> drawBottom_loop c b es p = drawBottom_loop c b' es p"
proof (induction es arbitrary: p)
  case Nil
  then show ?case by simp
next
  case (Cons e es)
  then have "drawBottom_elem c b e p = drawBottom_elem c b' e p"
    by (simp add: drawBottom_elem_def)
  with Cons show ?case by (cases "drawBottom_elem c b' e p") simp_all
qed

lemma drawTop_loop_skip:
  assumes "drawTop_elem c elem = Inr"
  shows "drawTop_loop c (es1 @ elem # es2) p = drawTop_loop c (es1 @ es2) p"
  using assms by (cases "drawTop_loop c es1 p") (simp_all add: drawTop_loop_append)

text \<open>
  C7, as amended. When the loop of \<open>drawTop_\<close> or of \<open>drawBottom_\<close> meets a
  measurable whose type is a string that matches none of its branches, it raises no
  error and appends nothing: the element is skipped, and the outline is the one drawn for
  the row without that element.
\<close>

theorem drawer_skips_unmatched:
  "(mtype elem = Some t \<and> indexOf t ''round corner'' \<noteq> 0 \<and> t \<noteq> ''previous connection'' \<and>
      t \<noteq> ''hat'' \<and> \<not> isSpacer elem \<and> elements (store info (topRow info)) = es1 @ elem # es2
      \<longrightarrow> drawTop_elem c elem outlinePath = Inr outlinePath \<and>
          drawTop c info outlinePath =
          drawTop c (info\<lparr> store := (store info)
               (topRow info := (store info (topRow info))\<lparr> elements := es1 @ es2 \<rparr>) \<rparr>)
            outlinePath) \<and>
   (mtype elem = Some t \<and> indexOf t ''round corner'' \<noteq> 0 \<and> t \<noteq> ''next connection'' \<and>
      t \<noteq> ''square corner left'' \<and> \<not> isSpacer elem \<and>
      elements (store info (bottomRow info)) = es1 @ elem # es2
      \<longrightarrow> drawBottom_elem c bottom elem outlinePath = Inr outlinePath \<and>
          drawBottom c info outlinePath =
          drawBottom c (info\<lparr> store := (store info)
               (bottomRow info := (store info (bottomRow info))\<lparr> elements := es1 @ es2 \<rparr>) \<rparr>)
            outlinePath)"
proof (intro conjI impI)
  assume a: "mtype elem = Some t \<and> indexOf t ''round corner'' \<noteq> 0 \<and> t \<noteq> ''previous connection'' \<and>
      t \<noteq> ''hat'' \<and> \<not> isSpacer elem \<and> elements (store info (topRow info)) = es1 @ elem # es2"
  then have e: "\<And>p. drawTop_elem c elem p = Inr p"
    by (simp add: drawTop_elem_unmatched)
  show "drawTop_elem c elem outlinePath = Inr outlinePath" by (rule e)
  have "\<And>p. drawTop_loop c (es1 @ elem # es2) p = drawTop_loop c (es1 @ es2) p"
    by (rule drawTop_loop_skip) (rule ext, rule e)
  with a show "drawTop c info outlinePath =
          drawTop c (info\<lparr> store := (store info)
               (topRow info := (store info (topRow info))\<lparr> elements := es1 @ es2 \<rparr>) \<rparr>)
            outlinePath"
    by (simp add: drawTop_def Let_def)
next
  assume a: "mtype elem = Some t \<and> indexOf t ''round corner'' \<noteq> 0 \<and> t \<noteq> ''next connection'' \<and>
      t \<noteq> ''square corner left'' \<and> \<not> isSpacer elem \<and>
      elements (store info (bottomRow info)) = es1 @ elem # es2"
  then have e: "\<And>p b. drawBottom_elem c b elem p = Inr p"
    by (simp add: drawBottom_elem_unmatched)
  show "drawBottom_elem c bottom elem outlinePath = Inr outlinePath" by (rule e)
  have "\<And>p b. drawBottom_loop c b (rev es2 @ elem # rev es1) p
          = drawBottom_loop c b (rev es2 @ rev es1) p"
  proof -
    fix p b
    show "drawBottom_loop c b (rev es2 @ elem # rev es1) p
          = drawBottom_loop c b (rev es2 @ rev es1) p"
      by (cases "drawBottom_loop c b (rev es2) p") (simp_all add: drawBottom_loop_append e)
  qed
  with a show "drawBottom c info outlinePath =
          drawBottom c (info\<lparr> store := (store info)
               (bottomRow info := (store info (bottomRow info))\<lparr> elements := es1 @ es2 \<rparr>) \<rparr>)
            outlinePath"
    by (simp add: drawBottom_def Let_def
          drawBottom_loop_xPos [of "store info (bottomRow info)"
             "(store info (bottomRow info))\<lparr> elements := es1 @ es2 \<rparr>"])
qed


text \<open>Unfolding the concrete blocks.\<close>

lemmas demo_defs = demoConstants_def demoBlock_def demoIcon_def demoInput_def fieldCornerBlock_def
  RenderInfo_def createRows_def createRows_begin_def createRows_end_def populate_def TopRow_def BottomRow_def InputRow_def Row_def
  RoundCorner_def RightRoundCorner_def FieldElement_def sized_def Measurable_def pushNewRow_def

lemmas run_defs = demo_defs statementBlock_def Row_measure_def measureInfo_def computeBounds_def
  alignRowElements_def alignRow_def addAlignmentPadding_def addRowSpacing_def finalize_def
  finalize_row_def addElemSpacing_def addElemSpacing_row_def getInRowSpacing_def
  InRowSpacer_def StatementInput_def addInput_def shouldStartNewRow_def measured_def
  lastInputWidth_def getLastInput_def getLastSpacer_def isSpacer_def setStatementEdge_def
  makeSpacerRow_def getSpacerRowHeight_def getSpacerRowWidth_def SpacerRow_def
  getElemCenterline_def rowList_def first_def isExternalInput_def isInlineInput_def
  isStatementInput_def OutputConnection_def


theorem drawer_skips_unmatched_witness:
  "drawTop_elem demoConstants (FieldElement demoConstants (20, 10)) [] = Inr [] \<and>
   drawBottom_elem demoConstants BottomRow (FieldElement demoConstants (20, 10)) [] = Inr [] \<and>
   drawTop demoConstants (createRows demoConstants (RenderInfo demoConstants fieldCornerBlock)) []
     = drawTop demoConstants
         (createRows demoConstants (RenderInfo demoConstants (demoBlock [] [] None))
            \<lparr> store := (\<lambda>_. InputRow)
                 (0 := TopRow\<lparr> elements := [RoundCorner demoConstants] \<rparr>,
                  1 := BottomRow\<lparr> elements := [RoundCorner demoConstants] \<rparr>) \<rparr>) [] \<and>
   drawBottom demoConstants (createRows demoConstants (RenderInfo demoConstants fieldCornerBlock)) []
     = drawBottom demoConstants
         (createRows demoConstants (RenderInfo demoConstants (demoBlock [] [] None))
            \<lparr> store := (\<lambda>_. InputRow)
                 (0 := TopRow\<lparr> elements := [RoundCorner demoConstants] \<rparr>,
                  1 := BottomRow\<lparr> elements := [RoundCorner demoConstants] \<rparr>) \<rparr>) []"
proof -
  let ?c = demoConstants
  let ?e = "FieldElement ?c (20, 10)"
  let ?info = "createRows ?c (RenderInfo ?c fieldCornerBlock)"
  have top: "mtype ?e = Some ''field'' \<and> indexOf ''field'' ''round corner'' \<noteq> 0 \<and>
      ''field'' \<noteq> ''previous connection'' \<and> ''field'' \<noteq> ''hat'' \<and> \<not> isSpacer ?e \<and>
      elements (store ?info (topRow ?info)) = [RoundCorner ?c] @ ?e # []"
    by (simp add: demo_defs indexOf_def isSpacer_def Let_def)
  have bot: "mtype ?e = Some ''field'' \<and> indexOf ''field'' ''round corner'' \<noteq> 0 \<and>
      ''field'' \<noteq> ''next connection'' \<and> ''field'' \<noteq> ''square corner left'' \<and>
      \<not> isSpacer ?e \<and> elements (store ?info (bottomRow ?info)) = [RoundCorner ?c] @ ?e # []"
    by (simp add: demo_defs indexOf_def isSpacer_def Let_def)
  have "drawTop_elem ?c ?e [] = Inr [] \<and>
        drawTop ?c ?info [] =
          drawTop ?c (?info\<lparr> store := (store ?info)
               (topRow ?info := (store ?info (topRow ?info))\<lparr> elements := [RoundCorner ?c] @ [] \<rparr>) \<rparr>) []"
    using top drawer_skips_unmatched [where elem = ?e and t = "''field''" and info = ?info
        and ?es1.0 = "[RoundCorner ?c]" and ?es2.0 = "[]" and c = ?c and outlinePath = "[]"
        and bottom = BottomRow]
    by blast
  moreover have "drawBottom_elem ?c BottomRow ?e [] = Inr [] \<and>
        drawBottom ?c ?info [] =
          drawBottom ?c (?info\<lparr> store := (store ?info)
               (bottomRow ?info := (store ?info (bottomRow ?info))\<lparr> elements := [RoundCorner ?c] @ [] \<rparr>) \<rparr>) []"
    using bot drawer_skips_unmatched [where elem = ?e and t = "''field''" and info = ?info
        and ?es1.0 = "[RoundCorner ?c]" and ?es2.0 = "[]" and c = ?c and outlinePath = "[]"
        and bottom = BottomRow]
    by blast
  ultimately show ?thesis
    by (simp add: demo_defs drawTop_def drawBottom_def Let_def)
qed

text \<open>
  The claim as stated fails: a field in the top row and in the bottom row matches no
  branch, and both walks return an outline with no piece for it and without an error.
\<close>

theorem drawer_fails_loudly_counterexample:
  "drawTop demoConstants (createRows demoConstants (RenderInfo demoConstants fieldCornerBlock)) []
     = Inr [MoveBy 0 0, Path ''tl'', LineOnAxis ''v'' 0] \<and>
   drawBottom demoConstants (createRows demoConstants (RenderInfo demoConstants fieldCornerBlock)) []
     = Inr [LineOnAxis ''v'' 0, Path ''bl'']"
  by (simp add: demo_defs drawTop_def drawBottom_def drawTop_elem_def drawBottom_elem_def
        andAlso_def notE_def isRoundedCorner_def isRightCorner_def indexOf_def isSpacer_def
        isNextConnection_def Let_def)

section \<open>Where a row begins\<close>

lemma pushNewRow_isInline [simp]: "isInline (pushNewRow info r) = isInline info"
  by (simp add: pushNewRow_def)

lemma pushNewRow_rows [simp]: "rows (pushNewRow info r) = rows info @ [nextRef info]"
  by (simp add: pushNewRow_def)

lemma createRows_inputs_isInline:
  "isInline (fst (createRows_inputs c inps l (info, r))) = isInline info"
  by (induction inps arbitrary: l info r) (simp_all add: Let_def split: prod.splits)

lemma groupInputs_cur:
  "groupInputs inline cur is =
     (cur @ hd (groupInputs inline [] is)) # tl (groupInputs inline [] is)"
proof (induction "is" arbitrary: cur)
  case Nil
  then show ?case by simp
next
  case (Cons i "is")
  show ?case
  proof (cases "beginsRow inline i")
    case True
    then show ?thesis by simp
  next
    case False
    have "groupInputs inline (cur @ [i]) is =
            ((cur @ [i]) @ hd (groupInputs inline [] is)) # tl (groupInputs inline [] is)"
      by (rule Cons.IH)
    moreover have "groupInputs inline [i] is =
            ([i] @ hd (groupInputs inline [] is)) # tl (groupInputs inline [] is)"
      by (rule Cons.IH)
    ultimately show ?thesis using False by simp
  qed
qed

lemma groupInputs_ne [simp]: "groupInputs inline cur is \<noteq> []"
  by (induction "is" arbitrary: cur) auto

lemma addInput_elements:
  "elements (addInput c info inp (r\<lparr> elements := elements r @ map (FieldElement c) (fieldRow inp) \<rparr>)) =
     elements r @ inputElems c (isInline info) inp"
  by (simp add: addInput_def inputElems_def)

lemma pushNewRow_nextRef [simp]: "nextRef (pushNewRow info r) = Suc (nextRef info)"
  by (simp add: pushNewRow_def)

lemma pushNewRow_store:
  "store (pushNewRow info r) a = (if a = nextRef info then r else store info a)"
  by (simp add: pushNewRow_def)

lemma createRows_inputs_elems_Some:
  "createRows_inputs c inps (Some l) (info, r) = (info', r') \<Longrightarrow>
     nextRef info \<le> nextRef info' \<and>
     rows info' = rows info @ [nextRef info ..< nextRef info'] \<and>
     (\<forall>a < nextRef info. store info' a = store info a) \<and>
     map (\<lambda>a. elements (store info' a)) [nextRef info ..< nextRef info'] @ [elements r'] =
       (let gs = map (groupElems c (isInline info))
                   (groupInputs (isInline info) [] (filter isVisible inps))
        in (elements r @ hd gs) # tl gs)"
proof (induction inps arbitrary: l info r)
  case Nil
  then show ?case by (simp add: groupElems_def)
next
  case (Cons i inps)
  let ?inl = "isInline info"
  let ?G = "map (groupElems c ?inl) (groupInputs ?inl [] (filter isVisible inps))"
  show ?case
  proof (cases "isVisible i")
    case False
    then show ?thesis using Cons.IH [of l info r] Cons.prems by simp
  next
    case vis: True
    show ?thesis
    proof (cases "beginsRow ?inl i")
      case True
      let ?info1 = "pushNewRow info r"
      let ?row3 = "addInput c ?info1 i
                     (InputRow\<lparr> elements := elements InputRow @ map (FieldElement c) (fieldRow i) \<rparr>)"
      have start: "shouldStartNewRow info i (Some l)"
        using True by (auto simp: shouldStartNewRow_def beginsRow_def)
      have step: "createRows_inputs c inps (Some i) (?info1, ?row3) = (info', r')"
        using Cons.prems vis start by (simp add: Let_def)
      note IH = Cons.IH [OF step]
      have el3: "elements ?row3 = inputElems c ?inl i"
        using addInput_elements [of c ?info1 i InputRow] by (simp add: InputRow_def Row_def)
      have n: "nextRef info < nextRef info'" using IH by simp
      have rows: "rows info' = rows info @ [nextRef info ..< nextRef info']"
        using IH n by (simp add: upt_conv_Cons)
      have old: "\<forall>a < nextRef info. store info' a = store info a"
        using IH by (simp add: pushNewRow_store)
      have pushed: "store info' (nextRef info) = r"
        using IH by (simp add: pushNewRow_store)
      have rest: "map (\<lambda>a. elements (store info' a)) [Suc (nextRef info) ..< nextRef info'] @ [elements r'] =
                    (inputElems c ?inl i @ hd ?G) # tl ?G"
        using IH el3 by (simp add: Let_def)
      have G: "map (groupElems c ?inl) (groupInputs ?inl [] (filter isVisible (i # inps))) =
                 [] # (inputElems c ?inl i @ hd ?G) # tl ?G"
        using vis True
        by (simp add: groupInputs_cur [of ?inl "[i]"] groupElems_def hd_map map_tl)
      have "map (\<lambda>a. elements (store info' a)) [nextRef info ..< nextRef info'] @ [elements r'] =
              elements r # (inputElems c ?inl i @ hd ?G) # tl ?G"
        using n pushed rest by (simp add: upt_conv_Cons)
      then show ?thesis using n rows old G by (simp add: Let_def)
    next
      case False
      let ?row3 = "addInput c info i
                     (r\<lparr> elements := elements r @ map (FieldElement c) (fieldRow i) \<rparr>)"
      have start: "\<not> shouldStartNewRow info i (Some l)"
        using False by (auto simp: shouldStartNewRow_def beginsRow_def)
      have step: "createRows_inputs c inps (Some i) (info, ?row3) = (info', r')"
        using Cons.prems vis start by (simp add: Let_def)
      note IH = Cons.IH [OF step]
      have el3: "elements ?row3 = elements r @ inputElems c ?inl i"
        by (simp add: addInput_elements)
      have G: "map (groupElems c ?inl) (groupInputs ?inl [] (filter isVisible (i # inps))) =
                 (inputElems c ?inl i @ hd ?G) # tl ?G"
        using vis False
        by (simp add: groupInputs_cur [of ?inl "[i]"] groupElems_def hd_map map_tl)
      show ?thesis using IH el3 G by (simp add: Let_def)
    qed
  qed
qed

lemma createRows_inputs_elems_None:
  "createRows_inputs c inps None (info, r) = (info', r') \<Longrightarrow>
     nextRef info \<le> nextRef info' \<and>
     rows info' = rows info @ [nextRef info ..< nextRef info'] \<and>
     (\<forall>a < nextRef info. store info' a = store info a) \<and>
     map (\<lambda>a. elements (store info' a)) [nextRef info ..< nextRef info'] @ [elements r'] =
       (let gs = map (groupElems c (isInline info)) (inputGroups (isInline info) inps)
        in (elements r @ hd gs) # tl gs)"
proof (induction inps arbitrary: info r)
  case Nil
  then show ?case by (simp add: groupElems_def inputGroups_def)
next
  case (Cons i inps)
  let ?inl = "isInline info"
  show ?case
  proof (cases "isVisible i")
    case False
    then show ?thesis using Cons.IH [of info r] Cons.prems by (simp add: inputGroups_def)
  next
    case vis: True
    let ?G = "map (groupElems c ?inl) (groupInputs ?inl [] (filter isVisible inps))"
    let ?row3 = "addInput c info i
                   (r\<lparr> elements := elements r @ map (FieldElement c) (fieldRow i) \<rparr>)"
    have step: "createRows_inputs c inps (Some i) (info, ?row3) = (info', r')"
      using Cons.prems vis by (simp add: Let_def shouldStartNewRow_def)
    note S = createRows_inputs_elems_Some [OF step]
    have el3: "elements ?row3 = elements r @ inputElems c ?inl i"
      by (simp add: addInput_elements)
    have G: "map (groupElems c ?inl) (inputGroups ?inl (i # inps)) =
               (inputElems c ?inl i @ hd ?G) # tl ?G"
      using vis
      by (simp add: inputGroups_def groupInputs_cur [of ?inl "[i]"] groupElems_def hd_map map_tl)
    show ?thesis using S el3 G by (simp add: Let_def)
  qed
qed

text \<open>
  C4, as amended. The first visible input never begins a new row: its fields and its
  measurable join the row that is open, after the elements that row has. Every later
  visible input begins a new row exactly when it is a statement input, or a value or
  dummy input while \<open>isInline\<close> is false (\<open>isInline\<close> is set when the block has inline
  inputs and is not collapsed); the open row is then pushed as it is, and the fields and
  the measurable of the input are the first elements of the new row. No other input
  begins a row: it joins the open one. So the rows that the loop pushes, followed by the
  row it leaves open, hold the elements of the groups of \<open>inputGroups\<close>, in this
  order, the first of them after the elements the open row had; and the loop changes no
  row that was there before.
\<close>

theorem createRows_inputs_rows:
  "createRows_inputs c inps None (info, r) = (info', r') \<Longrightarrow>
     shouldStartNewRow info inp None = False \<and>
     shouldStartNewRow info inp (Some l) = beginsRow (isInline info) inp \<and>
     isInline (RenderInfo c b) = (getInputsInline b \<and> \<not> blockIsCollapsed b) \<and>
     rows info' = rows info @ [nextRef info ..< nextRef info'] \<and>
     map (\<lambda>a. elements (store info' a)) [nextRef info ..< nextRef info'] @ [elements r'] =
       (let gs = map (groupElems c (isInline info)) (inputGroups (isInline info) inps)
        in (elements r @ hd gs) # tl gs) \<and>
     (\<forall>a < nextRef info. store info' a = store info a)"
  using createRows_inputs_elems_None [of c inps info r info' r']
  by (auto simp: RenderInfo_def shouldStartNewRow_def beginsRow_def)

theorem createRows_inputs_rows_witness:
  "(let X = createRows_inputs demoConstants
              [demoInput NEXT_STATEMENT, demoInput DUMMY_INPUT,
               (demoInput INPUT_VALUE)\<lparr> isVisible := False \<rparr>, demoInput NEXT_STATEMENT]
              None
              (RenderInfo demoConstants (demoBlock [] [] None),
               InputRow\<lparr> elements := [Icon demoConstants demoIcon] \<rparr>)
    in (rows (fst X),
        map (\<lambda>a. map mtype (elements (store (fst X) a))) (rows (fst X)),
        map mtype (elements (snd X)))) =
   ([2, 3],
    [[Some ''icon'', Some ''field'', Some ''statement input''], [Some ''field'']],
    [Some ''field'', Some ''statement input''])"
  using createRows_inputs_rows [OF surjective_pairing, where c = demoConstants and
          inps = "[demoInput NEXT_STATEMENT, demoInput DUMMY_INPUT,
            (demoInput INPUT_VALUE)\<lparr> isVisible := False \<rparr>, demoInput NEXT_STATEMENT]" and
          info = "RenderInfo demoConstants (demoBlock [] [] None)" and
          r = "InputRow\<lparr> elements := [Icon demoConstants demoIcon] \<rparr>"]
  by (simp add: demo_defs shouldStartNewRow_def Icon_def StatementInput_def addInput_def
        Let_def inputGroups_def groupElems_def inputElems_def beginsRow_def)

text \<open>
  The claim as stated fails: a statement input that is the first visible input does not
  begin a new row; here it shares the row of the icon.
\<close>

theorem statement_input_new_row_counterexample:
  "shouldStartNewRow (RenderInfo demoConstants iconStatementBlock)
      (demoInput NEXT_STATEMENT) None = False \<and>
   map (\<lambda>r. map mtype (elements r))
       (rowList (createRows demoConstants (RenderInfo demoConstants iconStatementBlock))) =
     [[Some ''round corner'', Some ''right round corner''],
      [Some ''icon'', Some ''field'', Some ''statement input''],
      [Some ''round corner'', Some ''right round corner'']]"
  by (simp add: demo_defs iconStatementBlock_def shouldStartNewRow_def rowList_def Icon_def
        StatementInput_def addInput_def Let_def)


section \<open>The render pass\<close>

lemma forRows_other: "a \<notin> set as \<Longrightarrow> forRows f as st a = st a"
  by (induction as arbitrary: st) auto

lemma forRows_distinct:
  "distinct as \<Longrightarrow> a \<in> set as \<Longrightarrow> forRows f as st a = f (st a)"
  by (induction as arbitrary: st) (auto simp: forRows_other)

lemma forRows_preserves:
  assumes "\<And>r. Q r \<Longrightarrow> Q (f r)" "Q (st a)"
  shows "Q (forRows f as st a)"
  using assms(2)
proof (induction as arbitrary: st)
  case Nil
  then show ?case by simp
next
  case (Cons b bs)
  have "Q ((st(b := f (st b))) a)" using Cons.prems by (auto intro: assms(1))
  then show ?case using Cons.IH by simp
qed

lemma forRows_establishes:
  assumes "\<And>r. Q (f r)" "a \<in> set as"
  shows "Q (forRows f as st a)"
  using assms(2)
proof (induction as arbitrary: st)
  case Nil
  then show ?case by simp
next
  case (Cons b bs)
  show ?case
  proof (cases "a \<in> set bs")
    case True
    then show ?thesis using Cons.IH by simp
  next
    case False
    with Cons.prems have "a = b" by simp
    with False show ?thesis by (simp add: forRows_other assms(1))
  qed
qed

lemma pushNewRow_simps [simp]:
  "nextRef (pushNewRow info r) = Suc (nextRef info)"
  "store (pushNewRow info r) = (store info)(nextRef info := r)"
  "topRow (pushNewRow info r) = topRow info"
  "bottomRow (pushNewRow info r) = bottomRow info"
  "infoBlock (pushNewRow info r) = infoBlock info"
  "isCollapsed (pushNewRow info r) = isCollapsed info"
  "infoWidth (pushNewRow info r) = infoWidth info"
  "startX (pushNewRow info r) = startX info"
  "statementEdge (pushNewRow info r) = statementEdge info"
  "outputConnection (pushNewRow info r) = outputConnection info"
  "hiddenIcons (pushNewRow info r) = hiddenIcons info"
  by (simp_all add: pushNewRow_def)

lemma sized_plain:
  "t \<noteq> ''between-row spacer'' \<Longrightarrow> t \<noteq> ''in-row spacer'' \<Longrightarrow> \<not> isSpacer (sized c t i sz)"
  by (simp add: sized_def isSpacer_def)

lemma sized_not_input: "\<not> isInput (sized c t False sz)"
  by (simp add: sized_def)

lemma plainElems_append:
  "plainElems (r\<lparr> elements := elements r @ es \<rparr>) =
     (plainElems r \<and> (\<forall>e\<in>set es. \<not> (isInput e \<and> isSpacer e)))"
  by (auto simp: plainElems_def)

lemma plainElems_InputRow [simp]: "plainElems InputRow"
  by (simp add: plainElems_def InputRow_def Row_def)

lemma plainElems_flags [simp]:
  "plainElems (r\<lparr> hasInlineInput := b \<rparr>) = plainElems r"
  "plainElems (r\<lparr> hasStatement := b \<rparr>) = plainElems r"
  "plainElems (r\<lparr> hasExternalInput := b \<rparr>) = plainElems r"
  "plainElems (r\<lparr> hasDummyInput := b \<rparr>) = plainElems r"
  "plainElems (r\<lparr> hasJaggedEdge := b \<rparr>) = plainElems r"
  by (simp_all add: plainElems_def)

lemma addInput_plain: "plainElems r \<Longrightarrow> plainElems (addInput c info inp r)"
  by (simp add: addInput_def plainElems_def InlineInput_def StatementInput_def
        ExternalValueInput_def sized_plain)

lemma createRows_icons_plain:
  "plainElems r \<Longrightarrow> plainElems (snd (createRows_icons c coll ics (hidden, r)))"
proof (induction ics arbitrary: hidden r)
  case Nil
  then show ?case by simp
next
  case (Cons ic ics)
  have p: "plainElems (r\<lparr> elements := elements r @ [Icon c ic] \<rparr>)"
    using Cons.prems by (simp add: plainElems_append Icon_def sized_not_input)
  show ?case
  proof (cases "coll \<and> collapseHidden ic")
    case True
    then have "createRows_icons c coll (ic # ics) (hidden, r) =
        createRows_icons c coll ics (hidden @ [Icon c ic], r)"
      by simp
    then show ?thesis using Cons.IH [OF Cons.prems] by (simp only:)
  next
    case False
    then have "createRows_icons c coll (ic # ics) (hidden, r) =
        createRows_icons c coll ics (hidden, r\<lparr> elements := elements r @ [Icon c ic] \<rparr>)"
      by auto
    then show ?thesis using Cons.IH [OF p] by (simp only:)
  qed
qed

lemma fields_plain:
  "plainElems r \<Longrightarrow> plainElems (r\<lparr> elements := elements r @ map (FieldElement c) fs \<rparr>)"
  by (auto simp: plainElems_def FieldElement_def sized_not_input)

lemma loopInv_push:
  "loopInv info \<Longrightarrow> plainElems r \<Longrightarrow> loopInv (pushNewRow info r)"
  by (auto simp: loopInv_def rowSane_def)

lemma createRows_inputs_inv:
  "loopInv info \<Longrightarrow> plainElems r \<Longrightarrow>
     loopInv (fst (createRows_inputs c inps l (info, r))) \<and>
     plainElems (snd (createRows_inputs c inps l (info, r)))"
proof (induction inps arbitrary: l info r)
  case Nil
  then show ?case by simp
next
  case (Cons inp inps)
  show ?case
  proof (cases "isVisible inp")
    case False
    then show ?thesis using Cons by simp
  next
    case True
    show ?thesis
    proof (cases "shouldStartNewRow info inp l")
      case True
      have "loopInv (pushNewRow info r)" using Cons.prems by (simp add: loopInv_push)
      moreover have "plainElems (addInput c (pushNewRow info r) inp
          (InputRow\<lparr> elements := elements InputRow @ map (FieldElement c) (fieldRow inp) \<rparr>))"
        by (intro addInput_plain fields_plain) simp
      ultimately show ?thesis using Cons.IH \<open>isVisible inp\<close> True by (simp add: Let_def)
    next
      case False
      have "plainElems (addInput c info inp
          (r\<lparr> elements := elements r @ map (FieldElement c) (fieldRow inp) \<rparr>))"
        using Cons.prems by (intro addInput_plain fields_plain)
      then show ?thesis using Cons.IH Cons.prems \<open>isVisible inp\<close> False by (simp add: Let_def)
    qed
  qed
qed

lemma createRows_inputs_fields:
  "infoBlock (fst (createRows_inputs c inps l (info, r))) = infoBlock info \<and>
   isCollapsed (fst (createRows_inputs c inps l (info, r))) = isCollapsed info \<and>
   outputConnection (fst (createRows_inputs c inps l (info, r))) = outputConnection info \<and>
   topRow (fst (createRows_inputs c inps l (info, r))) = topRow info \<and>
   bottomRow (fst (createRows_inputs c inps l (info, r))) = bottomRow info"
  by (induction inps arbitrary: l info r) (simp_all add: Let_def split: prod.splits)

lemma createRows_begin_fresh:
  "loopInv (fst (createRows_begin c (RenderInfo c b))) \<and>
   plainElems (snd (createRows_begin c (RenderInfo c b)))"
proof -
  define info2 where "info2 = (RenderInfo c b)
      \<lparr> store := (store (RenderInfo c b))(0 := populate (topRowElements b) TopRow), rows := [0] \<rparr>"
  define ic where "ic = createRows_icons c (isCollapsed info2) (getIcons b) ([], InputRow)"
  have p0: "plainElems (snd ic)"
    using createRows_icons_plain [of InputRow c "isCollapsed info2" "getIcons b" "[]"]
    by (simp add: ic_def)
  have inv3: "loopInv (info2\<lparr> hiddenIcons := fst ic \<rparr>)"
    by (simp add: loopInv_def info2_def RenderInfo_def rowSane_def populate_def
          TopRow_def BottomRow_def Row_def)
  have "createRows_begin c (RenderInfo c b) = (info2\<lparr> hiddenIcons := fst ic \<rparr>, snd ic)"
    by (simp add: createRows_begin_def Let_def ic_def info2_def RenderInfo_def
          split: prod.splits)
  then show ?thesis using p0 inv3 by simp
qed

lemma createRows_end_inv:
  assumes "loopInv info" "plainElems r"
  shows "freshRows (createRows_end c (info, r))"
proof -
  define row1 where "row1 = (if isCollapsed info
       then r\<lparr> hasJaggedEdge := True, elements := elements r @ [JaggedEdge c] \<rparr> else r)"
  have p1: "plainElems row1"
    using assms(2) by (auto simp: row1_def plainElems_def JaggedEdge_def sized_not_input)
  define info1 where "info1 = (if elements row1 \<noteq> [] then pushNewRow info row1 else info)"
  have inv1: "loopInv info1"
    using assms(1) p1 by (simp add: info1_def loopInv_push)
  have eq: "createRows_end c (info, r) =
      info1\<lparr> store := (store info1)(1 := populate (bottomRowElements (infoBlock info)) (store info1 1)),
             rows := rows info1 @ [1] \<rparr>"
  proof -
    have "bottomRow info = 1" using assms(1) by (simp add: loopInv_def)
    then show ?thesis
      by (simp add: createRows_end_def Let_def info1_def row1_def)
  qed
  show ?thesis
    using inv1 unfolding eq
    by (auto simp: freshRows_def refsOK_def loopInv_def rowSane_def populate_def)
qed

lemma createRows_fresh: "freshRows (createRows c (RenderInfo c b))"
proof -
  let ?s = "createRows_begin c (RenderInfo c b)"
  let ?lp = "createRows_inputs c (inputList (infoBlock (RenderInfo c b))) None ?s"
  have "loopInv (fst ?lp) \<and> plainElems (snd ?lp)"
    using createRows_inputs_inv [of "fst ?s" "snd ?s" c _ None] createRows_begin_fresh [of c b]
    by simp
  then show ?thesis
    using createRows_end_inv [of "fst ?lp" "snd ?lp" c] by (simp add: createRows_def)
qed

lemma spacedElems_length [simp]: "length (spacedElems c es) = 2 * length es"
  by (induction es) simp_all

lemma spacedElems_nth:
  "i < length es \<Longrightarrow>
     spacedElems c es ! (2 * i) = es ! i \<and>
     spacedElems c es ! (2 * i + 1) =
       InRowSpacer c (getInRowSpacing c (Some (es ! i))
                        (if Suc i < length es then Some (es ! Suc i) else None))"
proof (induction es arbitrary: i)
  case Nil
  then show ?case by simp
next
  case (Cons e es)
  show ?case
  proof (cases i)
    case 0
    then show ?thesis by (cases es) (simp_all add: first_def)
  next
    case (Suc j)
    with Cons.prems have "j < length es" by simp
    from Cons.IH [OF this] Suc show ?thesis by simp
  qed
qed

lemma spacedElems_Nil [simp]: "(spacedElems c es = []) = (es = [])"
  by (cases es) simp_all

lemma spacedElems_last:
  "es \<noteq> [] \<Longrightarrow>
     last (spacedElems c es) = InRowSpacer c (getInRowSpacing c (Some (last es)) None)"
  by (induction es) (auto simp: first_def split: list.splits)

lemma isSpacer_InRowSpacer [simp]: "isSpacer (InRowSpacer c w)"
  by (simp add: InRowSpacer_def sized_def isSpacer_def)

lemma lastIndexWhere_snoc:
  "P x \<Longrightarrow> lastIndexWhere P (xs @ [x]) = Some (length xs)"
  by (induction xs) simp_all

lemma lastIndexWhere_last:
  "xs \<noteq> [] \<Longrightarrow> P (last xs) \<Longrightarrow> lastIndexWhere P xs = Some (length xs - 1)"
  using lastIndexWhere_snoc [of P "last xs" "butlast xs"] by simp

lemma lastIndexWhere_None: "(lastIndexWhere P xs = None) = (\<forall>x\<in>set xs. \<not> P x)"
  by (induction xs) (auto split: option.splits)

lemma lastIndexWhere_Some:
  "lastIndexWhere P xs = Some i \<Longrightarrow> i < length xs \<and> P (xs ! i)"
  by (induction xs arbitrary: i) (auto split: option.splits if_splits)

lemma addElemSpacing_row_elements:
  "elements (addElemSpacing_row c r) =
     (if rowType r \<noteq> ''top row'' \<and> rowType r \<noteq> ''bottom row''
      then [InRowSpacer c (getInRowSpacing c None (first (elements r)))] else [])
     @ spacedElems c (elements r)"
  by (simp add: addElemSpacing_row_def Let_def)

lemma addElemSpacing_row_shape:
  fixes r c
  defines "old \<equiv> elements r" and "new \<equiv> elements (addElemSpacing_row c r)"
    and "k \<equiv> (if rowType r \<noteq> ''top row'' \<and> rowType r \<noteq> ''bottom row'' then 1 else 0 :: nat)"
  shows "length new = 2 * length old + k"
    and "k = 1 \<Longrightarrow> new ! 0 = InRowSpacer c (getInRowSpacing c None (first old))"
    and "i < length old \<Longrightarrow> new ! (k + 2 * i) = old ! i \<and>
           new ! (k + 2 * i + 1) =
             InRowSpacer c (getInRowSpacing c (Some (old ! i))
                              (if Suc i < length old then Some (old ! Suc i) else None))"
    and "old \<noteq> [] \<Longrightarrow> isSpacer (last new) \<and>
           getLastSpacer (addElemSpacing_row c r) = Some (length new - 1)"
proof -
  show "length new = 2 * length old + k"
    by (simp add: new_def old_def k_def addElemSpacing_row_elements)
  show "k = 1 \<Longrightarrow> new ! 0 = InRowSpacer c (getInRowSpacing c None (first old))"
    by (simp add: new_def old_def k_def addElemSpacing_row_elements split: if_splits)
  show "i < length old \<Longrightarrow> new ! (k + 2 * i) = old ! i \<and>
           new ! (k + 2 * i + 1) =
             InRowSpacer c (getInRowSpacing c (Some (old ! i))
                              (if Suc i < length old then Some (old ! Suc i) else None))"
    using spacedElems_nth [of i "elements r" c]
    by (simp add: new_def old_def k_def addElemSpacing_row_elements nth_append)
  assume ne: "old \<noteq> []"
  then have l: "last new = InRowSpacer c (getInRowSpacing c (Some (last old)) None)"
    by (simp add: new_def old_def addElemSpacing_row_elements spacedElems_last)
  have "new \<noteq> []" using ne by (simp add: new_def old_def addElemSpacing_row_elements)
  then show "isSpacer (last new) \<and>
           getLastSpacer (addElemSpacing_row c r) = Some (length new - 1)"
    using l lastIndexWhere_last [of new isSpacer] by (simp add: getLastSpacer_def new_def)
qed

lemma addElemSpacing_store:
  "distinct (rows info) \<Longrightarrow> a \<in> set (rows info) \<Longrightarrow>
     store (addElemSpacing c info) a = addElemSpacing_row c (store info a)"
  by (simp add: addElemSpacing_def forRows_distinct)

lemma addElemSpacing_fields [simp]:
  "rows (addElemSpacing c info) = rows info"
  "nextRef (addElemSpacing c info) = nextRef info"
  "infoBlock (addElemSpacing c info) = infoBlock info"
  "outputConnection (addElemSpacing c info) = outputConnection info"
  "topRow (addElemSpacing c info) = topRow info"
  "bottomRow (addElemSpacing c info) = bottomRow info"
  by (simp_all add: addElemSpacing_def)

text \<open>
  C9. After \<open>addElemSpacing_\<close>, in every row of a new RenderInfo, a spacer follows each
  element, the last one included, in the top and the bottom row as in the others; a
  spacer before the first element is added exactly in the rows that are neither the top
  nor the bottom row. So every row that had an element ends with an in-row spacer, which
  \<open>getLastSpacer\<close> finds for the alignment pass.
\<close>

theorem addElemSpacing_spacers:
  "a \<in> set (rows (createRows c (RenderInfo c b))) \<and>
   old = elements (store (createRows c (RenderInfo c b)) a) \<and>
   new = elements (store (addElemSpacing c (createRows c (RenderInfo c b))) a) \<and>
   k = (if rowType (store (createRows c (RenderInfo c b)) a) \<noteq> ''top row'' \<and>
           rowType (store (createRows c (RenderInfo c b)) a) \<noteq> ''bottom row''
        then 1 else 0)
   \<longrightarrow> length new = 2 * length old + k \<and>
       (k = 1 \<longrightarrow> new ! 0 = InRowSpacer c (getInRowSpacing c None (first old))) \<and>
       (\<forall>i<length old.
          new ! (k + 2 * i) = old ! i \<and>
          new ! (k + 2 * i + 1) =
            InRowSpacer c (getInRowSpacing c (Some (old ! i))
                             (if Suc i < length old then Some (old ! Suc i) else None))) \<and>
       (old \<noteq> [] \<longrightarrow>
          isSpacer (last new) \<and>
          getLastSpacer (store (addElemSpacing c (createRows c (RenderInfo c b))) a)
            = Some (length new - 1))"
proof (intro impI, elim conjE)
  let ?info = "createRows c (RenderInfo c b)"
  assume a: "a \<in> set (rows ?info)" and o: "old = elements (store ?info a)"
    and n: "new = elements (store (addElemSpacing c ?info) a)"
    and k: "k = (if rowType (store ?info a) \<noteq> ''top row'' \<and>
                   rowType (store ?info a) \<noteq> ''bottom row'' then 1 else 0)"
  have "distinct (rows ?info)" using createRows_fresh [of c b] by (simp add: freshRows_def refsOK_def)
  then have s: "store (addElemSpacing c ?info) a = addElemSpacing_row c (store ?info a)"
    using a by (rule addElemSpacing_store)
  show "length new = 2 * length old + k \<and>
       (k = 1 \<longrightarrow> new ! 0 = InRowSpacer c (getInRowSpacing c None (first old))) \<and>
       (\<forall>i<length old.
          new ! (k + 2 * i) = old ! i \<and>
          new ! (k + 2 * i + 1) =
            InRowSpacer c (getInRowSpacing c (Some (old ! i))
                             (if Suc i < length old then Some (old ! Suc i) else None))) \<and>
       (old \<noteq> [] \<longrightarrow>
          isSpacer (last new) \<and>
          getLastSpacer (store (addElemSpacing c ?info) a) = Some (length new - 1))"
    unfolding o n k s
    using addElemSpacing_row_shape [where c = c and r = "store ?info a"]
    by (intro conjI allI impI) blast+
qed

theorem addElemSpacing_spacers_witness:
  "map mtype (elements (store (addElemSpacing demoConstants
       (createRows demoConstants (RenderInfo demoConstants iconStatementBlock))) 2)) =
     [Some ''in-row spacer'', Some ''icon'', Some ''in-row spacer'', Some ''field'',
      Some ''in-row spacer'', Some ''statement input'', Some ''in-row spacer''] \<and>
   getLastSpacer (store (addElemSpacing demoConstants
       (createRows demoConstants (RenderInfo demoConstants iconStatementBlock))) 2) = Some 6 \<and>
   map mtype (elements (store (addElemSpacing demoConstants
       (createRows demoConstants (RenderInfo demoConstants iconStatementBlock))) 0)) =
     [Some ''round corner'', Some ''in-row spacer'', Some ''right round corner'',
      Some ''in-row spacer'']"
  using addElemSpacing_spacers [where c = demoConstants and b = iconStatementBlock and a = 2
          and old = "elements (store (createRows demoConstants
                        (RenderInfo demoConstants iconStatementBlock)) 2)"
          and new = "elements (store (addElemSpacing demoConstants (createRows demoConstants
                        (RenderInfo demoConstants iconStatementBlock))) 2)"
          and k = 1]
  by (simp add: run_defs iconStatementBlock_def Icon_def Let_def)

lemma finalize_elems_length [simp]: "length (finalize_elems fl r x es) = length es"
  by (induction es arbitrary: x) simp_all

lemma finalize_elems_Nil [simp]: "(finalize_elems fl r x es = []) = (es = [])"
  by (cases es) simp_all

lemma runningSum_simps [simp]:
  "runningSum fl x [] = x"
  "runningSum fl x (w # ws) = runningSum fl (fl (x + w)) ws"
  "runningSum fl x (ws @ [w]) = fl (runningSum fl x ws + w)"
  by (simp_all add: runningSum_def)

lemma runningSum_exact: "\<forall>x. fl x = x \<Longrightarrow> runningSum fl x ws = x + sum_list ws"
  by (induction ws arbitrary: x) (simp_all add: add.assoc)

lemma finalize_elems_nth:
  "j < length es \<Longrightarrow>
     xPos (finalize_elems fl r x es ! j) = runningSum fl x (map width (take j es)) \<and>
     width (finalize_elems fl r x es ! j) = width (es ! j)"
proof (induction es arbitrary: x j)
  case Nil
  then show ?case by simp
next
  case (Cons e es)
  show ?case
  proof (cases j)
    case 0
    then show ?thesis by simp
  next
    case (Suc i)
    with Cons.prems have "i < length es" by simp
    from Cons.IH [OF this, of "fl (x + width e)"] Suc show ?thesis by simp
  qed
qed

lemma finalize_row_fields [simp]:
  "yPos (finalize_row fl sx y r) = y"
  "rowXPos (finalize_row fl sx y r) = sx"
  "rowHeight (finalize_row fl sx y r) = rowHeight r"
  "rowWidth (finalize_row fl sx y r) = rowWidth r"
  "rowType (finalize_row fl sx y r) = rowType r"
  "hasInlineInput (finalize_row fl sx y r) = hasInlineInput r"
  "hasStatement (finalize_row fl sx y r) = hasStatement r"
  "widthWithConnectedBlocks (finalize_row fl sx y r) = widthWithConnectedBlocks r"
  "length (elements (finalize_row fl sx y r)) = length (elements r)"
  by (simp_all add: finalize_row_def Let_def)

lemma finalize_row_xPos:
  "(elements (finalize_row fl sx y r) \<noteq> [] \<longrightarrow>
      xPos (elements (finalize_row fl sx y r) ! 0) = sx) \<and>
   (\<forall>j. Suc j < length (elements (finalize_row fl sx y r)) \<longrightarrow>
      xPos (elements (finalize_row fl sx y r) ! Suc j) =
        fl (xPos (elements (finalize_row fl sx y r) ! j) +
            width (elements (finalize_row fl sx y r) ! j)))"
proof -
  let ?r = "r\<lparr> yPos := y, rowXPos := sx \<rparr>"
  have e: "elements (finalize_row fl sx y r) = finalize_elems fl ?r sx (elements r)"
    by (simp add: finalize_row_def Let_def)
  show ?thesis
  proof (intro conjI allI impI)
    assume "elements (finalize_row fl sx y r) \<noteq> []"
    then have "0 < length (elements r)" by (simp add: e)
    from finalize_elems_nth [OF this, of fl ?r sx]
    show "xPos (elements (finalize_row fl sx y r) ! 0) = sx" by (simp add: e)
  next
    fix j
    assume "Suc j < length (elements (finalize_row fl sx y r))"
    then have s: "Suc j < length (elements r)" by (simp add: e)
    then have j: "j < length (elements r)" by simp
    from finalize_elems_nth [OF s, of fl ?r sx] finalize_elems_nth [OF j, of fl ?r sx]
    show "xPos (elements (finalize_row fl sx y r) ! Suc j) =
        fl (xPos (elements (finalize_row fl sx y r) ! j) +
            width (elements (finalize_row fl sx y r) ! j))"
      by (simp add: e take_Suc_conv_app_nth [OF j])
  qed
qed

lemma finalize_loop_result:
  assumes "distinct as" "finalize_loop fl sx as (st, w, y) = (st', w', y')"
  shows "y' = runningSum fl y (map (\<lambda>a. rowHeight (st a)) as) \<and>
     (\<forall>i<length as. st' (as ! i) =
        finalize_row fl sx (runningSum fl y (map (\<lambda>a. rowHeight (st a)) (take i as)))
          (st (as ! i))) \<and>
     (\<forall>a. a \<notin> set as \<longrightarrow> st' a = st a)"
  using assms
proof (induction as arbitrary: st w y)
  case Nil
  then show ?case by simp
next
  case (Cons a as)
  let ?r = "finalize_row fl sx y (st a)"
  let ?st = "st(a := ?r)"
  let ?y = "fl (y + rowHeight (st a))"
  from Cons.prems have d: "distinct as" and na: "a \<notin> set as" by simp_all
  from Cons.prems(2) have
    l: "finalize_loop fl sx as (?st, max w (widthWithConnectedBlocks ?r), ?y) = (st', w', y')"
    by (simp add: Let_def)
  have same: "map (\<lambda>b. rowHeight (?st b)) as = map (\<lambda>b. rowHeight (st b)) as"
    using na by (intro map_cong) auto
  have sameT: "\<And>i. map (\<lambda>b. rowHeight (?st b)) (take i as) = map (\<lambda>b. rowHeight (st b)) (take i as)"
    using na by (intro map_cong) (auto dest: in_set_takeD)
  note ih = Cons.IH [OF d l, unfolded same sameT]
  have y: "y' = runningSum fl y (map (\<lambda>b. rowHeight (st b)) (a # as))"
    using ih by simp
  have o: "\<forall>b. b \<notin> set (a # as) \<longrightarrow> st' b = st b"
    using ih by simp
  have n: "\<forall>i<length (a # as). st' ((a # as) ! i) =
        finalize_row fl sx (runningSum fl y (map (\<lambda>b. rowHeight (st b)) (take i (a # as))))
          (st ((a # as) ! i))"
  proof (intro allI impI)
    fix i assume i: "i < length (a # as)"
    show "st' ((a # as) ! i) =
        finalize_row fl sx (runningSum fl y (map (\<lambda>b. rowHeight (st b)) (take i (a # as))))
          (st ((a # as) ! i))"
    proof (cases i)
      case 0
      have "st' a = ?st a" using ih na by blast
      then show ?thesis using 0 by simp
    next
      case (Suc j)
      with i have j: "j < length as" by simp
      then have "as ! j \<noteq> a" using na by (metis nth_mem)
      with ih j Suc show ?thesis by simp
    qed
  qed
  from y n o show ?case by blast
qed

lemma finalize_rows:
  assumes "distinct (rows info)"
  shows "rows (finalize fl info) = rows info \<and>
     infoHeight (finalize fl info) =
       runningSum fl 0 (map (\<lambda>a. rowHeight (store info a)) (rows info)) \<and>
     (\<forall>i<length (rows info). store (finalize fl info) (rows info ! i) =
        finalize_row fl (startX info)
          (runningSum fl 0 (map (\<lambda>a. rowHeight (store info a)) (take i (rows info))))
          (store info (rows info ! i)))"
proof -
  obtain st' w' y' where
    l: "finalize_loop fl (startX info) (rows info) (store info, 0, 0) = (st', w', y')"
    by (cases "finalize_loop fl (startX info) (rows info) (store info, 0, 0)") auto
  from finalize_loop_result [OF assms l] l show ?thesis
    by (simp add: finalize_def)
qed

text \<open>Positions are running sums in a finalized RenderInfo whose rows are distinct objects.\<close>

lemma finalize_positions:
  fixes fl :: rounding
  assumes "distinct (rows info)"
  defines "rs \<equiv> rowList (finalize fl info)"
  shows "(rs \<noteq> [] \<longrightarrow> yPos (rs ! 0) = 0) \<and>
     (\<forall>i. Suc i < length rs \<longrightarrow>
        yPos (rs ! Suc i) = fl (yPos (rs ! i) + rowHeight (rs ! i))) \<and>
     infoHeight (finalize fl info) = runningSum fl 0 (map rowHeight rs) \<and>
     (\<forall>r\<in>set rs.
        (elements r \<noteq> [] \<longrightarrow> xPos (elements r ! 0) = rowXPos r) \<and>
        (\<forall>j. Suc j < length (elements r) \<longrightarrow>
           xPos (elements r ! Suc j) = fl (xPos (elements r ! j) + width (elements r ! j))))"
proof -
  let ?h = "\<lambda>a. rowHeight (store info a)"
  note f = finalize_rows [OF assms(1), of fl]
  have len: "length rs = length (rows info)" by (simp add: rs_def rowList_def f)
  have nth: "\<And>i. i < length (rows info) \<Longrightarrow>
      rs ! i = finalize_row fl (startX info) (runningSum fl 0 (map ?h (take i (rows info))))
                 (store info (rows info ! i))"
    using f by (simp add: rs_def rowList_def)
  have y0: "rs \<noteq> [] \<longrightarrow> yPos (rs ! 0) = 0"
    using nth [of 0] len by (cases "rows info") auto
  have ys: "\<forall>i. Suc i < length rs \<longrightarrow>
      yPos (rs ! Suc i) = fl (yPos (rs ! i) + rowHeight (rs ! i))"
  proof (intro allI impI)
    fix i assume "Suc i < length rs"
    then have s: "Suc i < length (rows info)" and i: "i < length (rows info)" using len by simp_all
    show "yPos (rs ! Suc i) = fl (yPos (rs ! i) + rowHeight (rs ! i))"
      by (simp add: nth [OF s] nth [OF i] take_Suc_conv_app_nth [OF i])
  qed
  have hs: "map rowHeight rs = map ?h (rows info)"
    by (rule nth_equalityI) (simp_all add: len nth)
  have h: "infoHeight (finalize fl info) = runningSum fl 0 (map rowHeight rs)"
    using f by (simp add: hs)
  have xs: "\<forall>r\<in>set rs.
        (elements r \<noteq> [] \<longrightarrow> xPos (elements r ! 0) = rowXPos r) \<and>
        (\<forall>j. Suc j < length (elements r) \<longrightarrow>
           xPos (elements r ! Suc j) = fl (xPos (elements r ! j) + width (elements r ! j)))"
  proof
    fix r assume "r \<in> set rs"
    then obtain i where i: "i < length rs" and r: "r = rs ! i" by (auto simp: in_set_conv_nth)
    then have "r = finalize_row fl (startX info) (runningSum fl 0 (map ?h (take i (rows info))))
                 (store info (rows info ! i))"
      using nth len by simp
    then show "(elements r \<noteq> [] \<longrightarrow> xPos (elements r ! 0) = rowXPos r) \<and>
        (\<forall>j. Suc j < length (elements r) \<longrightarrow>
           xPos (elements r ! Suc j) = fl (xPos (elements r ! j) + width (elements r ! j)))"
      using finalize_row_xPos [of fl "startX info" _ "store info (rows info ! i)"] by simp
  qed
  from y0 ys h xs show ?thesis by blast
qed

lemma bindE_Inr:
  "(bindE x f = Inr y) = (\<exists>v. x = Inr v \<and> f v = Inr y)"
  by (cases x) simp_all

lemma computeBounds_fields:
  assumes "computeBounds fl ms info = Inr info'"
  shows "rows info' = rows info" "nextRef info' = nextRef info"
    "infoBlock info' = infoBlock info" "topRow info' = topRow info"
    "bottomRow info' = bottomRow info"
  using assms
  by (auto simp: computeBounds_def bindE_Inr Let_def split: option.splits)

lemma alignRowElements_fields:
  assumes "alignRowElements fl info = Inr info'"
  shows "rows info' = rows info" "nextRef info' = nextRef info"
    "infoBlock info' = infoBlock info" "topRow info' = topRow info"
    "bottomRow info' = bottomRow info" "infoWidth info' = infoWidth info"
    "startX info' = startX info" "statementEdge info' = statementEdge info"
  using assms
  by (auto simp: alignRowElements_def bindE_Inr)

lemma addRowSpacing_loop_refs:
  assumes "distinct (rows info @ as)" "\<forall>a\<in>set (rows info @ as). a < nextRef info"
  shows "refsOK (addRowSpacing_loop c fl as info)"
  using assms
proof (induction c fl as info rule: addRowSpacing_loop.induct)
  case (1 c fl info)
  then show ?case by (simp add: refsOK_def)
next
  case (2 c fl a info)
  then show ?case by (simp add: refsOK_def)
next
  case (3 c fl a b rest info)
  let ?info1 = "info\<lparr> rows := rows info @ [a] \<rparr>"
  let ?info2 = "pushNewRow ?info1 (makeSpacerRow c fl ?info1 (store ?info1 a) (store ?info1 b))"
  have d: "distinct (rows ?info2 @ b # rest)"
    using "3.prems" by (auto simp: pushNewRow_def)
  have l: "\<forall>x\<in>set (rows ?info2 @ b # rest). x < nextRef ?info2"
    using "3.prems" by (auto simp: pushNewRow_def less_Suc_eq)
  from "3.IH" [OF refl d l] show ?case by (simp add: Let_def)
qed

lemma addRowSpacing_refsOK: "refsOK info \<Longrightarrow> refsOK (addRowSpacing c fl info)"
  unfolding addRowSpacing_def
  by (rule addRowSpacing_loop_refs) (simp_all add: refsOK_def)

lemma addRowSpacing_loop_length:
  "length (rows (addRowSpacing_loop c fl as info)) = length (rows info) + (2 * length as - 1)"
  by (induction c fl as info rule: addRowSpacing_loop.induct) (simp_all add: Let_def)

lemma addRowSpacing_length:
  "length (rows (addRowSpacing c fl info)) = 2 * length (rows info) - 1"
  by (simp add: addRowSpacing_def addRowSpacing_loop_length)

lemma finalize_fields [simp]:
  "rows (finalize fl info) = rows info"
  "nextRef (finalize fl info) = nextRef info"
  "infoBlock (finalize fl info) = infoBlock info"
  "infoWidth (finalize fl info) = infoWidth info"
  "startX (finalize fl info) = startX info"
  "statementEdge (finalize fl info) = statementEdge info"
  by (simp_all add: finalize_def split: prod.splits)

lemma measureInfo_Inr:
  "(measureInfo c fl ms info = Inr info') =
     (\<exists>i1 i2. computeBounds fl ms (addElemSpacing c (createRows c info)) = Inr i1 \<and>
              alignRowElements fl i1 = Inr i2 \<and> info' = finalize fl (addRowSpacing c fl i2))"
  by (auto simp: measureInfo_def bindE_Inr)

lemma measure_fresh_distinct:
  assumes "computeBounds fl ms (addElemSpacing c (createRows c (RenderInfo c b))) = Inr i1"
    "alignRowElements fl i1 = Inr i2"
  shows "refsOK (addRowSpacing c fl i2)" "2 \<le> length (rows i2)"
proof -
  let ?i0 = "createRows c (RenderInfo c b)"
  have f0: "freshRows ?i0" by (rule createRows_fresh)
  then have r0: "refsOK ?i0" by (simp add: freshRows_def)
  have e: "rows i2 = rows ?i0" "nextRef i2 = nextRef ?i0"
    using computeBounds_fields [OF assms(1)] alignRowElements_fields [OF assms(2)] by simp_all
  then have "refsOK i2" using r0 by (simp add: refsOK_def)
  then show "refsOK (addRowSpacing c fl i2)" by (rule addRowSpacing_refsOK)
  have "{topRow ?i0, bottomRow ?i0} \<subseteq> set (rows ?i0)" "topRow ?i0 \<noteq> bottomRow ?i0"
    using f0 by (simp_all add: freshRows_def)
  then have "card {topRow ?i0, bottomRow ?i0} \<le> card (set (rows ?i0))"
    by (intro card_mono) simp_all
  then have "2 \<le> card (set (rows ?i0))"
    using \<open>topRow ?i0 \<noteq> bottomRow ?i0\<close> by simp
  then show "2 \<le> length (rows i2)"
    unfolding e using card_length [of "rows ?i0"] by linarith
qed

lemma spacedElems_mem:
  "e \<in> set (spacedElems c es) \<Longrightarrow> e \<in> set es \<or> \<not> isInput e"
  by (induction es) (auto simp: InRowSpacer_def sized_def)

lemma addElemSpacing_row_fields [simp]:
  "rowType (addElemSpacing_row c r) = rowType r"
  "hasStatement (addElemSpacing_row c r) = hasStatement r"
  "hasInlineInput (addElemSpacing_row c r) = hasInlineInput r"
  by (simp_all add: addElemSpacing_row_def Let_def)

lemma getLastSpacer_None:
  "(getLastSpacer r = None) = (\<forall>e\<in>set (elements r). \<not> isSpacer e)"
  by (simp add: getLastSpacer_def lastIndexWhere_None)

lemma InRowSpacer_not_input [simp]: "\<not> isInput (InRowSpacer c w)"
  by (simp add: InRowSpacer_def sized_def)

lemma addElemSpacing_row_plain:
  assumes "plainElems r"
  shows "plainElems (addElemSpacing_row c r)"
  unfolding plainElems_def
proof
  fix e assume "e \<in> set (elements (addElemSpacing_row c r))"
  then have "e \<in> set (spacedElems c (elements r)) \<or> \<not> isInput e"
    by (auto simp: addElemSpacing_row_elements split: if_splits)
  then have "e \<in> set (elements r) \<or> \<not> isInput e"
    using spacedElems_mem [of e c "elements r"] by blast
  then show "\<not> (isInput e \<and> isSpacer e)"
    using assms by (auto simp: plainElems_def)
qed

lemma spacedElems_spacer: "es \<noteq> [] \<Longrightarrow> Bex (set (spacedElems c es)) isSpacer"
  by (cases es) (auto simp: InRowSpacer_def sized_def isSpacer_def)

lemma addElemSpacing_row_alignable:
  assumes "rowSane r"
  shows "alignable (addElemSpacing_row c r)"
proof -
  have "rowSane (addElemSpacing_row c r)"
    using assms by (simp add: rowSane_def addElemSpacing_row_plain)
  moreover have "leadSpacer (addElemSpacing_row c r)"
    by (simp add: leadSpacer_def getLastSpacer_None addElemSpacing_row_elements
          spacedElems_spacer)
  ultimately show ?thesis by (simp add: alignable_def)
qed

lemma addElemSpacing_alignable:
  assumes "freshRows info" "a \<in> set (rows info)"
  shows "alignable (store (addElemSpacing c info) a)"
  using assms
  by (simp add: freshRows_def refsOK_def addElemSpacing_store addElemSpacing_row_alignable)

lemma measured_fields [simp]:
  "elements (measured ms r) = elements r"
  "rowType (measured ms r) = rowType r"
  "hasStatement (measured ms r) = hasStatement r"
  "hasInlineInput (measured ms r) = hasInlineInput r"
  by (simp_all add: measured_def split: prod.splits)

lemma alignable_cong:
  "elements r' = elements r \<Longrightarrow> rowType r' = rowType r \<Longrightarrow> hasStatement r' = hasStatement r
     \<Longrightarrow> alignable r' = alignable r"
  by (simp add: alignable_def rowSane_def plainElems_def leadSpacer_def getLastSpacer_def)

lemma measured_alignable [simp]: "alignable (measured ms r) = alignable r"
  by (rule alignable_cong) simp_all

lemma setStatementEdge_alignable [simp]: "alignable (setStatementEdge e r) = alignable r"
  by (rule alignable_cong) (simp_all add: setStatementEdge_def)

lemma computeBounds_loop_alignable:
  "computeBounds_loop fl ms as s = Inr s' \<Longrightarrow> alignable (fst s a) \<Longrightarrow> alignable (fst s' a)"
proof (induction as arbitrary: s)
  case Nil
  then show ?case by simp
next
  case (Cons b bs)
  obtain st w1 w2 w3 where s: "s = (st, w1, w2, w3)" by (cases s) auto
  from Cons.prems(1) obtain x where
    "computeBounds_loop fl ms bs (st(b := measured ms (st b)), x) = Inr s'"
    by (auto simp: s Let_def bindE_Inr split: if_splits)
  moreover have "alignable (fst (st(b := measured ms (st b)), x) a)"
    using Cons.prems(2) by (auto simp: s)
  ultimately show ?case by (rule Cons.IH)
qed

lemma computeBounds_parts:
  assumes "computeBounds fl ms info = Inr info'"
  shows "\<exists>st w1 w2 w3.
     computeBounds_loop fl ms (rows info) (store info, 0, 0, 0) = Inr (st, w1, w2, w3) \<and>
     store info' = forRows (setStatementEdge w1) (rows info) st \<and>
     statementEdge info' = w1 \<and>
     startX info' = (case outputConnection info of None \<Rightarrow> startX info | Some oc \<Rightarrow> width oc) \<and>
     infoWidth info' =
       (case outputConnection info of None \<Rightarrow> w2 | Some oc \<Rightarrow> fl (w2 + width oc)) \<and>
     outputConnection info' = outputConnection info"
proof (cases "computeBounds_loop fl ms (rows info) (store info, 0, 0, 0)")
  case (Inl e)
  then show ?thesis using assms by (simp add: computeBounds_def)
next
  case (Inr s)
  obtain st w1 w2 w3 where s: "s = (st, w1, w2, w3)" by (cases s) auto
  show ?thesis
  proof (cases "outputConnection info")
    case None
    have "info' = info\<lparr> store := forRows (setStatementEdge w1) (rows info) st,
        statementEdge := w1, infoWidth := w2, widthWithChildren := max w2 w3 \<rparr>"
      using assms Inr None by (auto simp: computeBounds_def s Let_def)
    then show ?thesis using Inr None by (simp add: s)
  next
    case (Some oc)
    have "info' = info\<lparr> store := forRows (setStatementEdge w1) (rows info) st,
        statementEdge := w1, startX := width oc, infoWidth := fl (w2 + width oc),
        widthWithChildren := fl (max w2 w3 + width oc) \<rparr>"
      using assms Inr Some by (auto simp: computeBounds_def s Let_def)
    then show ?thesis using Inr Some by (simp add: s)
  qed
qed

lemma computeBounds_alignable:
  assumes "computeBounds fl ms info = Inr info'" "alignable (store info a)"
  shows "alignable (store info' a)"
proof -
  from computeBounds_parts [OF assms(1)] obtain st w1 w2 w3 where
    l: "computeBounds_loop fl ms (rows info) (store info, 0, 0, 0) = Inr (st, w1, w2, w3)" and
    s: "store info' = forRows (setStatementEdge w1) (rows info) st"
    by (elim exE conjE)
  have "alignable (st a)" using computeBounds_loop_alignable [OF l, of a] assms(2) by simp
  then have "alignable (forRows (setStatementEdge w1) (rows info) st a)"
    by (rule forRows_preserves [where Q = alignable, rotated]) simp
  then show ?thesis by (simp add: s)
qed

lemma lastIndexWhere_update:
  "i < length xs \<Longrightarrow> P x = P (xs ! i) \<Longrightarrow> lastIndexWhere P (xs[i := x]) = lastIndexWhere P xs"
proof (induction xs arbitrary: i)
  case Nil
  then show ?case by simp
next
  case (Cons y ys)
  then show ?case by (cases i) simp_all
qed

lemma addAlignmentPadding_fields [simp]:
  "rowType (addAlignmentPadding fl r m) = rowType r"
  "hasStatement (addAlignmentPadding fl r m) = hasStatement r"
  "hasInlineInput (addAlignmentPadding fl r m) = hasInlineInput r"
  by (simp_all add: addAlignmentPadding_def split: option.splits)

lemma addAlignmentPadding_Nil [simp]:
  "(elements (addAlignmentPadding fl r m) = []) = (elements r = [])"
  by (simp add: addAlignmentPadding_def split: option.splits)

lemma isSpacer_width [simp]: "isSpacer (e\<lparr> width := w \<rparr>) = isSpacer e"
  by (simp add: isSpacer_def)

lemma addAlignmentPadding_width:
  "getLastSpacer r \<noteq> None \<Longrightarrow> rowWidth (addAlignmentPadding fl r m) = fl (rowWidth r + m)"
  by (auto simp: addAlignmentPadding_def)

lemma addAlignmentPadding_elements:
  assumes "getLastSpacer r = Some i"
  shows "i < length (elements r)" "isSpacer (elements r ! i)"
    "elements (addAlignmentPadding fl r m) =
       (elements r)[i := (elements r ! i)\<lparr> width := fl (width (elements r ! i) + m) \<rparr>]"
  using assms lastIndexWhere_Some [of isSpacer "elements r" i]
  by (simp_all add: getLastSpacer_def addAlignmentPadding_def)

lemma addAlignmentPadding_spacer:
  "getLastSpacer (addAlignmentPadding fl r m) = getLastSpacer r"
proof (cases "getLastSpacer r")
  case None
  then show ?thesis by (simp add: addAlignmentPadding_def)
next
  case (Some i)
  note e = addAlignmentPadding_elements(1,2) [OF Some]
    addAlignmentPadding_elements(3) [OF Some, of fl m]
  have "lastIndexWhere isSpacer (elements (addAlignmentPadding fl r m)) =
      lastIndexWhere isSpacer (elements r)"
    unfolding e(3) using e(1) by (intro lastIndexWhere_update) simp_all
  then show ?thesis by (simp add: getLastSpacer_def)
qed

lemma addAlignmentPadding_plain:
  assumes "plainElems r"
  shows "plainElems (addAlignmentPadding fl r m)"
proof (cases "getLastSpacer r")
  case None
  then show ?thesis using assms by (simp add: addAlignmentPadding_def)
next
  case (Some i)
  note e = addAlignmentPadding_elements(1,2) [OF Some]
    addAlignmentPadding_elements(3) [OF Some, of fl m]
  let ?x = "(elements r ! i)\<lparr> width := fl (width (elements r ! i) + m) \<rparr>"
  have x: "\<not> isInput ?x" using e(1,2) assms by (auto simp: plainElems_def)
  have "set (elements (addAlignmentPadding fl r m)) \<subseteq> insert ?x (set (elements r))"
    unfolding e(3) by (rule set_update_subset_insert)
  then show ?thesis
    using assms x unfolding plainElems_def by blast
qed

lemma addAlignmentPadding_input:
  assumes "plainElems r"
  shows "map_option width (getLastInput (addAlignmentPadding fl r m)) = map_option width (getLastInput r)"
proof (cases "getLastSpacer r")
  case None
  then show ?thesis by (simp add: addAlignmentPadding_def)
next
  case (Some i)
  then have i: "i < length (elements r)" "isSpacer (elements r ! i)"
    using lastIndexWhere_Some [of isSpacer "elements r" i] by (simp_all add: getLastSpacer_def)
  let ?es = "(elements r)[i := (elements r ! i)\<lparr> width := fl (width (elements r ! i) + m) \<rparr>]"
  have e: "elements (addAlignmentPadding fl r m) = ?es"
    using Some by (simp add: addAlignmentPadding_def)
  have l: "lastIndexWhere isInput ?es = lastIndexWhere isInput (elements r)"
    using i by (simp add: lastIndexWhere_update)
  show ?thesis
  proof (cases "lastIndexWhere isInput (elements r)")
    case None
    then show ?thesis by (simp add: getLastInput_def e l)
  next
    case (Some j)
    then have j: "j < length (elements r)" "isInput (elements r ! j)"
      using lastIndexWhere_Some [of isInput "elements r" j] by simp_all
    then have "\<not> isSpacer (elements r ! j)" using assms by (auto simp: plainElems_def)
    then have "j \<noteq> i" using i(2) by blast
    then show ?thesis using Some by (simp add: getLastInput_def e l)
  qed
qed

lemma alignRow_result:
  assumes "alignRow id info r = Inr r'" "alignable r"
  shows "alignable r' \<and> aligned (infoWidth info - startX info) (statementEdge info - startX info) r'"
proof (cases "hasInlineInput r")
  case True
  then show ?thesis using assms by (auto simp: alignRow_def aligned_def)
next
  case noInline: False
  show ?thesis
  proof (cases "hasStatement r")
    case False
    let ?m = "infoWidth info - startX info - rowWidth r"
    show ?thesis
    proof (cases "?m = 0")
      case True
      then have "r' = r" using assms(1) noInline False by (simp add: alignRow_def)
      then show ?thesis using assms(2) True False by (simp add: aligned_def)
    next
      case nz: False
      then have r': "r' = addAlignmentPadding id r ?m"
        using assms(1) noInline False by (simp add: alignRow_def)
      have "alignable r'"
        using assms(2) False
        by (simp add: r' alignable_def rowSane_def leadSpacer_def addAlignmentPadding_spacer)
      moreover have "aligned (infoWidth info - startX info) (statementEdge info - startX info) r'"
        using assms(2) False
        by (auto simp: r' aligned_def alignable_def leadSpacer_def addAlignmentPadding_width)
      ultimately show ?thesis by simp
    qed
  next
    case True
    then have p: "plainElems r" using assms(2) by (simp add: alignable_def rowSane_def)
    from assms(1) noInline True obtain w where w: "lastInputWidth r = Inr w"
      by (auto simp: alignRow_def bindE_Inr)
    then obtain s where s: "getLastInput r = Some s" "width s = w"
      by (auto simp: lastInputWidth_def split: option.splits)
    let ?m = "statementEdge info - startX info - (rowWidth r - w)"
    show ?thesis
    proof (cases "?m = 0")
      case True
      then have "r' = r" using assms(1) noInline \<open>hasStatement r\<close> w by (simp add: alignRow_def)
      then show ?thesis using assms(2) True \<open>hasStatement r\<close> s by (simp add: aligned_def)
    next
      case nz: False
      then have r': "r' = addAlignmentPadding id r ?m"
        using assms(1) noInline True w by (simp add: alignRow_def)
      have "alignable r'"
        using assms(2) p
        by (simp add: r' alignable_def rowSane_def leadSpacer_def addAlignmentPadding_spacer
              addAlignmentPadding_plain)
      moreover have "aligned (infoWidth info - startX info) (statementEdge info - startX info) r'"
      proof -
        from addAlignmentPadding_input [OF p, of id ?m] s
        obtain s' where "getLastInput r' = Some s'" "width s' = w"
          by (auto simp: r')
        then show ?thesis
          using assms(2) True
          by (auto simp: r' aligned_def alignable_def leadSpacer_def addAlignmentPadding_width)
      qed
      ultimately show ?thesis by simp
    qed
  qed
qed

lemma alignRowElements_loop_result:
  assumes "distinct as" "alignRowElements_loop fl info as st = Inr st'"
  shows "(\<forall>a\<in>set as. alignRow fl info (st a) = Inr (st' a)) \<and> (\<forall>a. a \<notin> set as \<longrightarrow> st' a = st a)"
  using assms
proof (induction as arbitrary: st)
  case Nil
  then show ?case by simp
next
  case (Cons b bs)
  from Cons.prems(2) obtain r where
    r: "alignRow fl info (st b) = Inr r" and l: "alignRowElements_loop fl info bs (st(b := r)) = Inr st'"
    by (auto simp: bindE_Inr)
  from Cons.prems(1) have d: "distinct bs" and nb: "b \<notin> set bs" by simp_all
  have o: "\<And>a. a \<in> set bs \<Longrightarrow> (st(b := r)) a = st a" using nb by auto
  from Cons.IH [OF d l] have
    1: "\<forall>a\<in>set bs. alignRow fl info ((st(b := r)) a) = Inr (st' a)" and
    2: "\<forall>a. a \<notin> set bs \<longrightarrow> st' a = (st(b := r)) a"
    by blast+
  from 2 nb have "st' b = r" by simp
  moreover from 1 o have "\<forall>a\<in>set bs. alignRow fl info (st a) = Inr (st' a)" by simp
  moreover from 2 have "\<forall>a. a \<notin> set (b # bs) \<longrightarrow> st' a = st a" by simp
  ultimately show ?case using r by simp
qed

lemma alignRowElements_aligned:
  assumes "alignRowElements id info = Inr info'" "distinct (rows info)" "a \<in> set (rows info)"
    "alignable (store info a)"
  shows "aligned (infoWidth info - startX info) (statementEdge info - startX info) (store info' a)"
proof -
  from assms(1) obtain st' where
    l: "alignRowElements_loop id info (rows info) (store info) = Inr st'" and s: "store info' = st'"
    by (auto simp: alignRowElements_def bindE_Inr)
  from alignRowElements_loop_result [OF assms(2) l] assms(3)
  have "alignRow id info (store info a) = Inr (st' a)" by simp
  from alignRow_result [OF this assms(4)] show ?thesis by (simp add: s)
qed

lemma makeSpacerRow_aligned:
  "(\<And>x. fl x = x) \<Longrightarrow> aligned (infoWidth i - startX i) E (makeSpacerRow c fl i p n)"
  by (simp add: aligned_def makeSpacerRow_def getSpacerRowWidth_def SpacerRow_def Row_def Let_def)

lemma addRowSpacing_loop_fields [simp]:
  "infoWidth (addRowSpacing_loop c fl as info) = infoWidth info"
  "startX (addRowSpacing_loop c fl as info) = startX info"
  "statementEdge (addRowSpacing_loop c fl as info) = statementEdge info"
  "infoBlock (addRowSpacing_loop c fl as info) = infoBlock info"
  by (induction c fl as info rule: addRowSpacing_loop.induct) (simp_all add: Let_def)

lemma addRowSpacing_loop_aligned:
  assumes "\<forall>a\<in>set (rows info) \<union> set as. a < nextRef info \<and> aligned W E (store info a)"
    "W = infoWidth info - startX info" "\<forall>x. fl x = x"
  shows "\<forall>a\<in>set (rows (addRowSpacing_loop c fl as info)).
           aligned W E (store (addRowSpacing_loop c fl as info) a)"
  using assms
proof (induction c fl as info rule: addRowSpacing_loop.induct)
  case (1 c fl info)
  then show ?case by simp
next
  case (2 c fl a info)
  then show ?case by simp
next
  case (3 c fl a b rest info)
  let ?info1 = "info\<lparr> rows := rows info @ [a] \<rparr>"
  let ?sp = "makeSpacerRow c fl ?info1 (store ?info1 a) (store ?info1 b)"
  let ?info2 = "pushNewRow ?info1 ?sp"
  have sp: "aligned W E ?sp"
    using makeSpacerRow_aligned [of fl ?info1 E c] "3.prems"(2,3) by simp
  have p: "\<forall>x\<in>set (rows ?info2) \<union> set (b # rest).
      x < nextRef ?info2 \<and> aligned W E (store ?info2 x)"
  proof
    fix x assume x: "x \<in> set (rows ?info2) \<union> set (b # rest)"
    show "x < nextRef ?info2 \<and> aligned W E (store ?info2 x)"
    proof (cases "x = nextRef info")
      case True
      then show ?thesis using sp by simp
    next
      case False
      with x have "x \<in> set (rows info) \<union> set (a # b # rest)" by auto
      with "3.prems"(1) have "x < nextRef info \<and> aligned W E (store info x)" by blast
      then show ?thesis using False by simp
    qed
  qed
  have w: "W = infoWidth ?info2 - startX ?info2" using "3.prems"(2) by simp
  from "3.IH" [OF refl p w "3.prems"(3)] show ?case by (simp add: Let_def)
qed

lemma addRowSpacing_fields [simp]:
  "infoWidth (addRowSpacing c fl info) = infoWidth info"
  "startX (addRowSpacing c fl info) = startX info"
  "statementEdge (addRowSpacing c fl info) = statementEdge info"
  "infoBlock (addRowSpacing c fl info) = infoBlock info"
  by (simp_all add: addRowSpacing_def)

lemma addRowSpacing_aligned:
  assumes "refsOK info" "\<forall>a\<in>set (rows info). aligned (infoWidth info - startX info) E (store info a)"
  shows "\<forall>a\<in>set (rows (addRowSpacing c id info)).
           aligned (infoWidth info - startX info) E (store (addRowSpacing c id info) a)"
  unfolding addRowSpacing_def
  using assms
  by (intro addRowSpacing_loop_aligned) (simp_all add: refsOK_def)

lemma finalize_elems_isInput:
  "lastIndexWhere isInput (finalize_elems fl r x es) = lastIndexWhere isInput es"
  by (induction es arbitrary: x) simp_all

lemma finalize_row_lastInput:
  "map_option width (getLastInput (finalize_row fl sx y r)) = map_option width (getLastInput r)"
proof -
  let ?r = "r\<lparr> yPos := y, rowXPos := sx \<rparr>"
  have e: "elements (finalize_row fl sx y r) = finalize_elems fl ?r sx (elements r)"
    by (simp add: finalize_row_def Let_def)
  show ?thesis
  proof (cases "lastIndexWhere isInput (elements r)")
    case None
    then show ?thesis by (simp add: getLastInput_def e finalize_elems_isInput)
  next
    case (Some j)
    then have "j < length (elements r)" using lastIndexWhere_Some by fastforce
    from finalize_elems_nth [OF this, of fl ?r sx] Some show ?thesis
      by (simp add: getLastInput_def e finalize_elems_isInput)
  qed
qed

lemma finalize_row_Nil [simp]:
  "(elements (finalize_row fl sx y r) = []) = (elements r = [])"
  by (simp add: finalize_row_def Let_def)

lemma finalize_row_aligned:
  assumes "aligned W E r"
  shows "aligned W E (finalize_row fl sx y r)"
proof -
  have "\<And>s. getLastInput r = Some s \<Longrightarrow>
      \<exists>s'. getLastInput (finalize_row fl sx y r) = Some s' \<and> width s' = width s"
    using finalize_row_lastInput [of fl sx y r] by (cases "getLastInput (finalize_row fl sx y r)") auto
  then show ?thesis using assms unfolding aligned_def by (auto simp: finalize_row_fields)
qed

lemma finalize_aligned:
  assumes "distinct (rows info)" "\<forall>a\<in>set (rows info). aligned W E (store info a)"
  shows "\<forall>r\<in>set (rowList (finalize fl info)). aligned W E r"
proof
  fix r assume "r \<in> set (rowList (finalize fl info))"
  then obtain i where i: "i < length (rows info)" and r: "r = store (finalize fl info) (rows info ! i)"
    by (auto simp: rowList_def in_set_conv_nth)
  from finalize_rows [OF assms(1)] i obtain y where
    "store (finalize fl info) (rows info ! i) = finalize_row fl (startX info) y (store info (rows info ! i))"
    by blast
  moreover have "aligned W E (store info (rows info ! i))" using assms(2) i by simp
  ultimately show "aligned W E r" unfolding r by (simp add: finalize_row_aligned)
qed

lemma measure_aligned:
  assumes "measureInfo c id ms (RenderInfo c b) = Inr info"
  shows "\<forall>r\<in>set (rowList info).
           aligned (infoWidth info - startX info) (statementEdge info - startX info) r"
proof -
  let ?i0 = "createRows c (RenderInfo c b)"
  let ?ie = "addElemSpacing c ?i0"
  from assms obtain i1 i2 where
    1: "computeBounds id ms ?ie = Inr i1" and
    2: "alignRowElements id i1 = Inr i2" and
    3: "info = finalize id (addRowSpacing c id i2)"
    by (auto simp: measureInfo_Inr)
  have f0: "freshRows ?i0" by (rule createRows_fresh)
  note cf = computeBounds_fields [OF 1]
  note af = alignRowElements_fields [OF 2]
  have d1: "distinct (rows i1)" using f0 cf by (simp add: freshRows_def refsOK_def)
  have r2: "refsOK i2" using f0 cf af by (simp add: freshRows_def refsOK_def)
  let ?W = "infoWidth i1 - startX i1" and ?E = "statementEdge i1 - startX i1"
  have a2: "\<forall>a\<in>set (rows i2). aligned ?W ?E (store i2 a)"
  proof
    fix a assume "a \<in> set (rows i2)"
    then have a: "a \<in> set (rows ?i0)" using cf af by simp
    have "alignable (store ?ie a)" using f0 a by (rule addElemSpacing_alignable)
    then have "alignable (store i1 a)" by (rule computeBounds_alignable [OF 1])
    with a cf show "aligned ?W ?E (store i2 a)"
      by (intro alignRowElements_aligned [OF 2 d1]) simp_all
  qed
  have w: "infoWidth i2 - startX i2 = ?W" using af by simp
  have "\<forall>a\<in>set (rows (addRowSpacing c id i2)). aligned ?W ?E (store (addRowSpacing c id i2) a)"
    using addRowSpacing_aligned [OF r2, of ?E c] a2 unfolding w by simp
  moreover have "distinct (rows (addRowSpacing c id i2))"
    using addRowSpacing_refsOK [OF r2] by (simp add: refsOK_def)
  ultimately have "\<forall>r\<in>set (rowList info). aligned ?W ?E r"
    unfolding 3 by (intro finalize_aligned)
  then show ?thesis using af by (simp add: 3)
qed

section \<open>The pass returns\<close>

lemma hasInput_lastInputWidth: "hasInput r \<Longrightarrow> hasStatement r \<Longrightarrow> \<exists>w. lastInputWidth r = Inr w"
  by (cases "lastIndexWhere isInput (elements r)")
     (auto simp: hasInput_def lastInputWidth_def getLastInput_def lastIndexWhere_None)

lemma hasInput_cong:
  "hasStatement r' = hasStatement r \<Longrightarrow> set (elements r) \<subseteq> set (elements r') \<Longrightarrow>
     hasInput r \<Longrightarrow> hasInput r'"
  by (auto simp: hasInput_def)

lemma hasInput_Row [simp]: "hasInput (Row t)" "hasInput InputRow" "hasInput TopRow"
    "hasInput BottomRow" "hasInput (SpacerRow h w)"
  by (simp_all add: hasInput_def Row_def InputRow_def TopRow_def BottomRow_def SpacerRow_def)

lemma hasInput_populate: "hasInput r \<Longrightarrow> hasInput (populate es r)"
  by (rule hasInput_cong) (auto simp: populate_def)

lemma addInput_hasInput: "hasInput r \<Longrightarrow> hasInput (addInput c info inp r)"
  by (auto simp: hasInput_def addInput_def StatementInput_def sized_def Measurable_def)

lemma createRows_icons_hasInput:
  "hasInput r \<Longrightarrow> hasInput (snd (createRows_icons c coll ics (hidden, r)))"
proof (induction ics arbitrary: hidden r)
  case Nil
  then show ?case by simp
next
  case (Cons ic ics)
  have p: "hasInput (r\<lparr> elements := elements r @ [Icon c ic] \<rparr>)"
    using Cons.prems by (auto simp: hasInput_def)
  show ?case
  proof (cases "coll \<and> collapseHidden ic")
    case True
    then have "createRows_icons c coll (ic # ics) (hidden, r) =
        createRows_icons c coll ics (hidden @ [Icon c ic], r)"
      by simp
    then show ?thesis using Cons.IH [OF Cons.prems] by (simp only:)
  next
    case False
    then have "createRows_icons c coll (ic # ics) (hidden, r) =
        createRows_icons c coll ics (hidden, r\<lparr> elements := elements r @ [Icon c ic] \<rparr>)"
      by auto
    then show ?thesis using Cons.IH [OF p] by (simp only:)
  qed
qed

lemma createRows_inputs_hasInput:
  "\<forall>a. hasInput (store info a) \<Longrightarrow> hasInput r \<Longrightarrow>
     (\<forall>a. hasInput (store (fst (createRows_inputs c inps l (info, r))) a)) \<and>
     hasInput (snd (createRows_inputs c inps l (info, r)))"
proof (induction inps arbitrary: l info r)
  case Nil
  then show ?case by simp
next
  case (Cons inp inps)
  show ?case
  proof (cases "isVisible inp")
    case False
    then show ?thesis using Cons by simp
  next
    case True
    show ?thesis
    proof (cases "shouldStartNewRow info inp l")
      case True
      have "\<forall>a. hasInput (store (pushNewRow info r) a)" using Cons.prems by simp
      moreover have "hasInput (addInput c (pushNewRow info r) inp
          (InputRow\<lparr> elements := elements InputRow @ map (FieldElement c) (fieldRow inp) \<rparr>))"
        by (intro addInput_hasInput) (simp add: hasInput_def InputRow_def Row_def)
      ultimately show ?thesis using Cons.IH \<open>isVisible inp\<close> True by (simp add: Let_def)
    next
      case False
      have "hasInput (addInput c info inp
          (r\<lparr> elements := elements r @ map (FieldElement c) (fieldRow inp) \<rparr>))"
        using Cons.prems(2) by (intro addInput_hasInput) (auto simp: hasInput_def)
      then show ?thesis using Cons.IH Cons.prems \<open>isVisible inp\<close> False by (simp add: Let_def)
    qed
  qed
qed

lemma createRows_end_hasInput:
  assumes "\<forall>a. hasInput (store i a)" "hasInput r"
  shows "\<forall>a. hasInput (store (createRows_end c (i, r)) a)"
proof -
  define row1 where "row1 = (if isCollapsed i
       then r\<lparr> hasJaggedEdge := True, elements := elements r @ [JaggedEdge c] \<rparr> else r)"
  have h1: "hasInput row1" using assms(2) by (auto simp: row1_def hasInput_def)
  define info1 where "info1 = (if elements row1 \<noteq> [] then pushNewRow i row1 else i)"
  have a1: "\<forall>a. hasInput (store info1 a)" using assms(1) h1 by (simp add: info1_def)
  have "store (createRows_end c (i, r)) =
      (store info1)(bottomRow info1 :=
         populate (bottomRowElements (infoBlock i)) (store info1 (bottomRow info1)))"
    by (simp add: createRows_end_def Let_def info1_def row1_def)
  then show ?thesis using a1 by (simp add: hasInput_populate)
qed

lemma createRows_hasInput:
  assumes "\<forall>a. hasInput (store info a)"
  shows "\<forall>a. hasInput (store (createRows c info) a)"
proof -
  let ?s = "createRows_begin c info"
  have b: "(\<forall>a. hasInput (store (fst ?s) a)) \<and> hasInput (snd ?s)"
    using assms createRows_icons_hasInput [of InputRow c "isCollapsed info" "getIcons (infoBlock info)" "hiddenIcons info"]
    by (auto simp: createRows_begin_def Let_def hasInput_populate split: prod.splits)
  let ?lp = "createRows_inputs c (inputList (infoBlock info)) None ?s"
  have l: "(\<forall>a. hasInput (store (fst ?lp) a)) \<and> hasInput (snd ?lp)"
    using createRows_inputs_hasInput [of "fst ?s" "snd ?s" c _ None] b by simp
  from createRows_end_hasInput [of "fst ?lp" "snd ?lp" c] l show ?thesis
    by (simp add: createRows_def)
qed

lemma addElemSpacing_row_hasInput: "hasInput r \<Longrightarrow> hasInput (addElemSpacing_row c r)"
proof (rule hasInput_cong)
  show "hasStatement (addElemSpacing_row c r) = hasStatement r" by simp
  have "\<And>es. set es \<subseteq> set (spacedElems c es)" by (induct_tac es) auto
  then show "set (elements r) \<subseteq> set (elements (addElemSpacing_row c r))"
    by (auto simp: addElemSpacing_row_elements)
qed

lemma forRows_all:
  assumes "\<And>r. Q r \<Longrightarrow> Q (f r)" "\<forall>a. Q (st a)"
  shows "\<forall>a. Q (forRows f as st a)"
  using assms(2)
proof (induction as arbitrary: st)
  case Nil
  then show ?case by simp
next
  case (Cons b bs)
  have "\<forall>a. Q ((st(b := f (st b))) a)" using Cons.prems by (auto intro: assms(1))
  then show ?case using Cons.IH by simp
qed

lemma addElemSpacing_hasInput:
  "\<forall>a. hasInput (store info a) \<Longrightarrow> \<forall>a. hasInput (store (addElemSpacing c info) a)"
  unfolding addElemSpacing_def
  using forRows_all [where Q = hasInput and f = "addElemSpacing_row c"]
  by (simp add: addElemSpacing_row_hasInput)

lemma measured_hasInput [simp]: "hasInput (measured ms r) = hasInput r"
  by (simp add: hasInput_def)

lemma setStatementEdge_hasInput [simp]: "hasInput (setStatementEdge e r) = hasInput r"
  by (simp add: hasInput_def setStatementEdge_def)

lemma computeBounds_loop_total:
  "\<forall>a. hasInput (fst s a) \<Longrightarrow>
     \<exists>s'. computeBounds_loop fl ms as s = Inr s' \<and> (\<forall>a. hasInput (fst s' a))"
proof (induction as arbitrary: s)
  case Nil
  then show ?case by simp
next
  case (Cons b bs)
  obtain st w1 w2 w3 where s: "s = (st, w1, w2, w3)" by (cases s) auto
  let ?r = "measured ms (st b)"
  have h: "hasInput ?r" using Cons.prems by (simp add: s)
  have st: "\<And>x. \<forall>a. hasInput (fst (st(b := ?r), x) a)"
    using Cons.prems by (simp add: s)
  show ?case
  proof (cases "hasStatement ?r")
    case True
    with h obtain w where w: "lastInputWidth ?r = Inr w"
      using hasInput_lastInputWidth by blast
    from Cons.IH [OF st] True w show ?thesis by (simp add: s Let_def)
  next
    case False
    from Cons.IH [OF st] False show ?thesis by (simp add: s Let_def)
  qed
qed

lemma computeBounds_total:
  assumes "\<forall>a. hasInput (store info a)"
  shows "\<exists>info'. computeBounds fl ms info = Inr info' \<and> (\<forall>a. hasInput (store info' a))"
proof -
  from computeBounds_loop_total [of "(store info, 0, 0, 0)" fl ms "rows info"] assms
  obtain s where l: "computeBounds_loop fl ms (rows info) (store info, 0, 0, 0) = Inr s"
    and h: "\<forall>a. hasInput (fst s a)" by auto
  obtain st w1 w2 w3 where s: "s = (st, w1, w2, w3)" by (cases s) auto
  obtain info' where i: "computeBounds fl ms info = Inr info'"
    using l by (simp add: computeBounds_def s Let_def)
  from computeBounds_parts [OF i] l obtain w where
    "store info' = forRows (setStatementEdge w) (rows info) st"
    by (auto simp: s)
  moreover have "\<forall>a. hasInput (forRows (setStatementEdge w) (rows info) st a)"
    using forRows_all [where Q = hasInput and f = "setStatementEdge w" and st = st] h
    by (simp add: s)
  ultimately show ?thesis using i by simp
qed

lemma addAlignmentPadding_hasInput: "hasInput r \<Longrightarrow> hasInput (addAlignmentPadding fl r m)"
proof (cases "getLastSpacer r")
  case None
  then show "hasInput r \<Longrightarrow> ?thesis" by (simp add: addAlignmentPadding_def)
next
  case (Some i)
  note e = addAlignmentPadding_elements(1) [OF Some]
    addAlignmentPadding_elements(3) [OF Some, of fl m]
  have "lastIndexWhere isInput (elements (addAlignmentPadding fl r m)) =
      lastIndexWhere isInput (elements r)"
    unfolding e(2) using e(1) by (intro lastIndexWhere_update) simp_all
  then have "(\<exists>x\<in>set (elements (addAlignmentPadding fl r m)). isInput x) =
      (\<exists>x\<in>set (elements r). isInput x)"
    using lastIndexWhere_None [of isInput "elements r"]
      lastIndexWhere_None [of isInput "elements (addAlignmentPadding fl r m)"] by auto
  then show "hasInput r \<Longrightarrow> ?thesis" by (simp add: hasInput_def)
qed

lemma alignRow_total:
  assumes "hasInput r"
  shows "\<exists>r'. alignRow fl info r = Inr r' \<and> hasInput r'"
proof (cases "hasStatement r \<and> \<not> hasInlineInput r")
  case True
  with assms obtain w where "lastInputWidth r = Inr w" using hasInput_lastInputWidth by blast
  then show ?thesis using True assms
    by (simp add: alignRow_def Let_def addAlignmentPadding_hasInput)
next
  case False
  then show ?thesis using assms
    by (auto simp: alignRow_def Let_def addAlignmentPadding_hasInput)
qed

lemma alignRowElements_loop_total:
  "\<forall>a. hasInput (st a) \<Longrightarrow>
     \<exists>st'. alignRowElements_loop fl info as st = Inr st' \<and> (\<forall>a. hasInput (st' a))"
proof (induction as arbitrary: st)
  case Nil
  then show ?case by simp
next
  case (Cons b bs)
  from alignRow_total [of "st b" fl info] Cons.prems obtain r where
    r: "alignRow fl info (st b) = Inr r" "hasInput r" by blast
  then have "\<forall>a. hasInput ((st(b := r)) a)" using Cons.prems by simp
  from Cons.IH [of "st(b := r)", OF this] obtain st' where
    "alignRowElements_loop fl info bs (st(b := r)) = Inr st'" "\<forall>a. hasInput (st' a)"
    by blast
  then show ?case
    by (simp only: alignRowElements_loop.simps r(1) bindE_simps) blast
qed

lemma alignRowElements_total:
  assumes "\<forall>a. hasInput (store info a)"
  shows "\<exists>info'. alignRowElements fl info = Inr info' \<and> (\<forall>a. hasInput (store info' a))"
  using alignRowElements_loop_total [OF assms, of fl info "rows info"]
  by (auto simp: alignRowElements_def)

lemma addRowSpacing_loop_hasInput:
  "\<forall>a. hasInput (store info a) \<Longrightarrow> \<forall>a. hasInput (store (addRowSpacing_loop c fl as info) a)"
proof (induction c fl as info rule: addRowSpacing_loop.induct)
  case (1 c fl info)
  then show ?case by simp
next
  case (2 c fl a info)
  then show ?case by simp
next
  case (3 c fl a b rest info)
  let ?info1 = "info\<lparr> rows := rows info @ [a] \<rparr>"
  let ?sp = "makeSpacerRow c fl ?info1 (store ?info1 a) (store ?info1 b)"
  have "hasInput ?sp" by (simp add: makeSpacerRow_def Let_def hasInput_def SpacerRow_def Row_def)
  then have "\<forall>x. hasInput (store (pushNewRow ?info1 ?sp) x)" using "3.prems" by simp
  from "3.IH" [OF refl this] show ?case by (simp add: Let_def)
qed

lemma finalize_row_hasInput: "hasInput r \<Longrightarrow> hasInput (finalize_row fl sx y r)"
proof -
  assume h: "hasInput r"
  have "lastIndexWhere isInput (elements (finalize_row fl sx y r)) = lastIndexWhere isInput (elements r)"
    by (simp add: finalize_row_def Let_def finalize_elems_isInput)
  then have "(\<exists>x\<in>set (elements (finalize_row fl sx y r)). isInput x) =
      (\<exists>x\<in>set (elements r). isInput x)"
    using lastIndexWhere_None [of isInput "elements r"]
      lastIndexWhere_None [of isInput "elements (finalize_row fl sx y r)"] by auto
  then show ?thesis using h by (simp add: hasInput_def)
qed

lemma finalize_loop_hasInput:
  "\<forall>a. hasInput (fst s a) \<Longrightarrow> \<forall>a. hasInput (fst (finalize_loop fl sx as s) a)"
proof (induction as arbitrary: s)
  case Nil
  then show ?case by simp
next
  case (Cons b bs)
  obtain st w y where s: "s = (st, w, y)" by (cases s) auto
  have "\<And>x. \<forall>a. hasInput (fst (st(b := finalize_row fl sx y (st b)), x) a)"
    using Cons.prems by (simp add: s finalize_row_hasInput)
  from Cons.IH [OF this] show ?case by (simp add: s Let_def)
qed

lemma measureInfo_total:
  assumes "\<forall>a. hasInput (store info a)"
  shows "\<exists>info'. measureInfo c fl ms info = Inr info' \<and> (\<forall>a. hasInput (store info' a))"
proof -
  have "\<forall>a. hasInput (store (addElemSpacing c (createRows c info)) a)"
    using assms by (intro addElemSpacing_hasInput createRows_hasInput)
  from computeBounds_total [OF this] obtain i1 where
    1: "computeBounds fl ms (addElemSpacing c (createRows c info)) = Inr i1"
    and h1: "\<forall>a. hasInput (store i1 a)" by blast
  from alignRowElements_total [OF h1] obtain i2 where
    2: "alignRowElements fl i1 = Inr i2" and h2: "\<forall>a. hasInput (store i2 a)" by blast
  have "\<forall>a. hasInput (store (addRowSpacing c fl i2) a)"
    unfolding addRowSpacing_def using h2 by (intro addRowSpacing_loop_hasInput) simp
  then have "\<forall>a. hasInput (store (finalize fl (addRowSpacing c fl i2)) a)"
    using finalize_loop_hasInput [of "(store (addRowSpacing c fl i2), 0, 0)" fl
        "startX (addRowSpacing c fl i2)" "rows (addRowSpacing c fl i2)"]
    by (simp add: finalize_def split: prod.splits) (metis fst_conv)
  then show ?thesis using 1 2 by (auto simp: measureInfo_Inr)
qed

lemma RenderInfo_hasInput: "\<forall>a. hasInput (store (RenderInfo c b) a)"
  by (simp add: RenderInfo_def)

lemma measure_fresh_total: "\<exists>info. measureInfo c fl ms (RenderInfo c b) = Inr info"
  using measureInfo_total [OF RenderInfo_hasInput] by blast

section \<open>A measured block\<close>

text \<open>
  The pass on the block with one statement input and no output connection. The sizes
  of the concrete blocks are whole numbers, and the numbers of their passes whole numbers
  and halves of them: in doubles these sums and differences are exact, and the rounding
  of the concrete passes is the identity.
\<close>

lemma statementBlock_measure:
  "map_sum id
     (\<lambda>i. (map (\<lambda>r. (rowType r, hasStatement r, hasInlineInput r, rowWidth r, rowHeight r,
                       yPos r, rowXPos r)) (rowList i),
            map (\<lambda>r. map (\<lambda>e. (width e, xPos e)) (elements r)) (rowList i),
            map (\<lambda>r. map_option width (getLastInput r)) (rowList i),
            infoWidth i, statementEdge i, startX i, infoHeight i))
     (measureInfo demoConstants id Row_measure (RenderInfo demoConstants (statementBlock None))) =
   Inr ([(''top row'', False, False, 60, 15, 0, 0),
         (''between-row spacer'', False, False, 60, 5, 15, 0),
         (''input row'', True, False, 60, 24, 20, 0),
         (''between-row spacer'', False, False, 60, 5, 44, 0),
         (''bottom row'', False, False, 60, 15, 49, 0)],
        [[(4, 0), (5, 4), (4, 9), (47, 13)], [],
         [(5, 0), (20, 5), (5, 25), (30, 30), (0, 60)], [],
         [(4, 0), (5, 4), (4, 9), (47, 13)]],
        [None, None, Some 30, None, None], 60, 30, 0, 64)"
  by (simp add: run_defs Let_def)

section \<open>Positions\<close>

text \<open>
  C2. \<open>measure()\<close> on a new RenderInfo returns, and in the finalized RenderInfo the first
  row has \<open>yPos\<close> 0, every later row has the \<open>yPos\<close> of the row before it plus that
  row's height, the height of the RenderInfo is the sum of the row heights, taken from
  the first row on, and in each row the first element has the \<open>xPos\<close> of the row and
  every later element the \<open>xPos\<close> of the element before it plus that element's width.
  Every "plus" is the addition of the program, whatever its rounding \<open>fl\<close>; where
  the additions are exact, the height is the sum of the list of the row heights.
\<close>

theorem measure_positions:
  "(\<exists>info. measureInfo c fl ms (RenderInfo c b) = Inr info) \<and>
   (measureInfo c fl ms (RenderInfo c b) = Inr info \<longrightarrow>
     rowList info \<noteq> [] \<and> yPos (rowList info ! 0) = 0 \<and>
     (\<forall>i. Suc i < length (rowList info) \<longrightarrow>
        yPos (rowList info ! Suc i) =
          fl (yPos (rowList info ! i) + rowHeight (rowList info ! i))) \<and>
     infoHeight info = runningSum fl 0 (map rowHeight (rowList info)) \<and>
     ((\<forall>x. fl x = x) \<longrightarrow> infoHeight info = sum_list (map rowHeight (rowList info))) \<and>
     (\<forall>r\<in>set (rowList info).
        (elements r \<noteq> [] \<longrightarrow> xPos (elements r ! 0) = rowXPos r) \<and>
        (\<forall>j. Suc j < length (elements r) \<longrightarrow>
           xPos (elements r ! Suc j) = fl (xPos (elements r ! j) + width (elements r ! j)))))"
proof (rule conjI, rule measure_fresh_total, rule impI)
  assume "measureInfo c fl ms (RenderInfo c b) = Inr info"
  then obtain i1 i2 where
    1: "computeBounds fl ms (addElemSpacing c (createRows c (RenderInfo c b))) = Inr i1" and
    2: "alignRowElements fl i1 = Inr i2" and
    3: "info = finalize fl (addRowSpacing c fl i2)"
    by (auto simp: measureInfo_Inr)
  have d: "distinct (rows (addRowSpacing c fl i2))"
    using measure_fresh_distinct(1) [OF 1 2] by (simp add: refsOK_def)
  have "length (rowList info) = 2 * length (rows i2) - 1"
    by (simp add: 3 rowList_def addRowSpacing_length)
  then have ne: "rowList info \<noteq> []"
    using measure_fresh_distinct(2) [OF 1 2] by auto
  from finalize_positions [OF d, of fl] ne
    runningSum_exact [of fl 0 "map rowHeight (rowList info)"] show
    "rowList info \<noteq> [] \<and> yPos (rowList info ! 0) = 0 \<and>
     (\<forall>i. Suc i < length (rowList info) \<longrightarrow>
        yPos (rowList info ! Suc i) =
          fl (yPos (rowList info ! i) + rowHeight (rowList info ! i))) \<and>
     infoHeight info = runningSum fl 0 (map rowHeight (rowList info)) \<and>
     ((\<forall>x. fl x = x) \<longrightarrow> infoHeight info = sum_list (map rowHeight (rowList info))) \<and>
     (\<forall>r\<in>set (rowList info).
        (elements r \<noteq> [] \<longrightarrow> xPos (elements r ! 0) = rowXPos r) \<and>
        (\<forall>j. Suc j < length (elements r) \<longrightarrow>
           xPos (elements r ! Suc j) = fl (xPos (elements r ! j) + width (elements r ! j))))"
    unfolding 3 by simp
qed

theorem measure_positions_witness:
  "\<exists>info. measureInfo demoConstants id Row_measure
             (RenderInfo demoConstants (statementBlock None)) = Inr info \<and>
      map (\<lambda>r. (yPos r, rowHeight r)) (rowList info) =
        [(0, 15), (15, 5), (20, 24), (44, 5), (49, 15)] \<and>
      infoHeight info = 64 \<and>
      map (\<lambda>e. (xPos e, width e)) (elements (rowList info ! 2)) =
        [(0, 5), (5, 20), (25, 5), (30, 30), (60, 0)]"
proof -
  let ?m = "measureInfo demoConstants id Row_measure
              (RenderInfo demoConstants (statementBlock None))"
  note t = measure_positions [of demoConstants id Row_measure "statementBlock None"]
  from t obtain info where m: "?m = Inr info" by blast
  from t [of info] m have
    y0: "yPos (rowList info ! 0) = 0" and
    ys: "\<forall>i. Suc i < length (rowList info) \<longrightarrow>
           yPos (rowList info ! Suc i) = yPos (rowList info ! i) + rowHeight (rowList info ! i)" and
    h: "infoHeight info = runningSum id 0 (map rowHeight (rowList info))" and
    xs: "\<forall>r\<in>set (rowList info).
        (elements r \<noteq> [] \<longrightarrow> xPos (elements r ! 0) = rowXPos r) \<and>
        (\<forall>j. Suc j < length (elements r) \<longrightarrow>
           xPos (elements r ! Suc j) = xPos (elements r ! j) + width (elements r ! j))"
    by simp_all
  from statementBlock_measure [unfolded m] obtain r0 r1 r2 r3 r4 where
    rs: "rowList info = [r0, r1, r2, r3, r4]" and
    hs: "map rowHeight [r0, r1, r2, r3, r4] = [15, 5, 24, 5, 15]" and
    x2: "rowXPos r2 = 0" and
    ws: "map width (elements r2) = [5, 20, 5, 30, 0]"
    by (auto simp: map_eq_Cons_conv)
  from ys rs hs y0 have
    "map (\<lambda>r. (yPos r, rowHeight r)) (rowList info) = [(0, 15), (15, 5), (20, 24), (44, 5), (49, 15)]"
    using ys [rule_format, of 0] ys [rule_format, of 1] ys [rule_format, of 2]
      ys [rule_format, of 3]
    by simp
  moreover have "infoHeight info = 64" using h rs hs by simp
  moreover have "map (\<lambda>e. (xPos e, width e)) (elements (rowList info ! 2)) =
        [(0, 5), (5, 20), (25, 5), (30, 30), (60, 0)]"
  proof -
    from ws obtain e0 e1 e2 e3 e4 where
      es: "elements r2 = [e0, e1, e2, e3, e4]" and
      w: "width e0 = 5" "width e1 = 20" "width e2 = 5" "width e3 = 30" "width e4 = 0"
      by (auto simp: map_eq_Cons_conv)
    have "r2 \<in> set (rowList info)" by (simp add: rs)
    with xs have x:
      "elements r2 \<noteq> [] \<longrightarrow> xPos (elements r2 ! 0) = rowXPos r2"
      "\<forall>j. Suc j < length (elements r2) \<longrightarrow>
           xPos (elements r2 ! Suc j) = xPos (elements r2 ! j) + width (elements r2 ! j)"
      by blast+
    from x(1) x(2) [rule_format, of 0] x(2) [rule_format, of 1] x(2) [rule_format, of 2]
      x(2) [rule_format, of 3]
    show ?thesis by (simp add: rs es w x2)
  qed
  ultimately show ?thesis using m by (intro exI [of _ info]) simp
qed

section \<open>Row widths\<close>




section \<open>Alignment of a row that is too wide\<close>

text \<open>
  C3. The pass on the block with one statement input and an output connection of
  width 8. After \<open>computeBounds_\<close> the row of the statement input is 60 wide, of which
  30 are the statement input, and \<open>statementEdge - startX\<close> is 22: \<open>missingSpace\<close> is
  -8, which \<open>if (missingSpace)\<close> lets through. \<open>alignRowElements_\<close> makes the row 52
  wide and its last spacer -8 wide.
\<close>

theorem alignment_shrinks_row:
  "map_sum id
     (\<lambda>i. (map rowWidth (rowList i), map (\<lambda>r. map width (elements r)) (rowList i),
            infoWidth i, statementEdge i, startX i))
     (computeBounds id Row_measure (addElemSpacing demoConstants
        (createRows demoConstants (RenderInfo demoConstants (statementBlock (Some 8)))))) =
   Inr ([18, 60, 18], [[4, 5, 4, 5], [5, 20, 5, 30, 0], [4, 5, 4, 5]], 68, 30, 8) \<and>
   map_sum id
     (\<lambda>i. (map rowWidth (rowList i), map (\<lambda>r. map width (elements r)) (rowList i),
            infoWidth i, statementEdge i, startX i))
     (bindE (computeBounds id Row_measure (addElemSpacing demoConstants
               (createRows demoConstants (RenderInfo demoConstants (statementBlock (Some 8))))))
        (alignRowElements id)) =
   Inr ([60, 52, 60], [[4, 5, 4, 47], [5, 20, 5, 30, - 8], [4, 5, 4, 47]], 68, 30, 8)"
  by (simp add: run_defs Let_def)

section \<open>Measuring twice\<close>

lemma createRows_icons_snd:
  "snd (createRows_icons c coll ics (h, r)) = snd (createRows_icons c coll ics (h', r))"
proof (induction ics arbitrary: h h' r)
  case Nil
  then show ?case by simp
next
  case (Cons ic ics)
  show ?case
  proof (cases "coll \<and> collapseHidden ic")
    case True
    then have "\<And>x. createRows_icons c coll (ic # ics) (x, r) =
        createRows_icons c coll ics (x @ [Icon c ic], r)"
      by simp
    then show ?thesis using Cons.IH by (simp only:)
  next
    case False
    then have "\<And>x. createRows_icons c coll (ic # ics) (x, r) =
        createRows_icons c coll ics (x, r\<lparr> elements := elements r @ [Icon c ic] \<rparr>)"
      by auto
    then show ?thesis using Cons.IH by (simp only:)
  qed
qed

lemma createRows_inputs_shape:
  assumes "createRows_inputs c inps None (info, r) = (info', r')"
  defines "X \<equiv> (let gs = map (groupElems c (isInline info)) (inputGroups (isInline info) inps)
                  in (elements r @ hd gs) # tl gs)"
  shows "elements r' = last X" "length (rows info') + 1 = length (rows info) + length X"
proof -
  let ?new = "[nextRef info ..< nextRef info']"
  from createRows_inputs_elems_None [OF assms(1)] have
    r: "rows info' = rows info @ ?new" and
    e: "map (\<lambda>a. elements (store info' a)) ?new @ [elements r'] = X"
    by (simp_all add: X_def)
  from e have "last X = elements r'" by (metis last_snoc)
  then show "elements r' = last X" by simp
  from e have "length X = length ?new + 1" by (metis length_append_singleton length_map Suc_eq_plus1)
  then show "length (rows info') + 1 = length (rows info) + length X"
    by (simp add: r)
qed

lemma createRows_begin_fields:
  assumes "createRows_begin c info = (i0, r0)"
  shows "rows i0 = rows info @ [topRow info]" "isInline i0 = isInline info"
    "isCollapsed i0 = isCollapsed info" "infoBlock i0 = infoBlock info"
    "r0 = snd (createRows_icons c (isCollapsed info) (getIcons (infoBlock info)) ([], InputRow))"
proof -
  obtain h r where ic: "createRows_icons c (isCollapsed info) (getIcons (infoBlock info))
      (hiddenIcons info, InputRow) = (h, r)"
    by fastforce
  have "r = snd (createRows_icons c (isCollapsed info) (getIcons (infoBlock info)) ([], InputRow))"
    using createRows_icons_snd [of c "isCollapsed info" "getIcons (infoBlock info)"
      "hiddenIcons info" InputRow "[]"] ic by simp
  moreover from assms ic have "i0 = info\<lparr> store := (store info)
        (topRow info := populate (topRowElements (infoBlock info)) (store info (topRow info))),
      rows := rows info @ [topRow info], hiddenIcons := h \<rparr>" "r0 = r"
    by (simp_all add: createRows_begin_def Let_def)
  ultimately show "rows i0 = rows info @ [topRow info]" "isInline i0 = isInline info"
    "isCollapsed i0 = isCollapsed info" "infoBlock i0 = infoBlock info"
    "r0 = snd (createRows_icons c (isCollapsed info) (getIcons (infoBlock info)) ([], InputRow))"
    by simp_all
qed

lemma createRows_end_fields:
  "length (rows (createRows_end c (info, r))) =
     length (rows info) + (if isCollapsed info \<or> elements r \<noteq> [] then 2 else 1)"
  "isInline (createRows_end c (info, r)) = isInline info"
  "isCollapsed (createRows_end c (info, r)) = isCollapsed info"
  "infoBlock (createRows_end c (info, r)) = infoBlock info"
  by (simp_all add: createRows_end_def Let_def)

text \<open>\<open>createRows_\<close> taken apart into its three steps.\<close>

lemma createRows_steps:
  obtains i0 r0 i1 r1 where
    "createRows_begin c info = (i0, r0)"
    "createRows_inputs c (inputList (infoBlock info)) None (i0, r0) = (i1, r1)"
    "createRows c info = createRows_end c (i1, r1)"
proof -
  obtain i0 r0 where b: "createRows_begin c info = (i0, r0)" by fastforce
  obtain i1 r1 where l: "createRows_inputs c (inputList (infoBlock info)) None (i0, r0) = (i1, r1)"
    by fastforce
  have "createRows c info = createRows_end c (i1, r1)"
    by (simp add: createRows_def b l)
  with b l show ?thesis by (rule that)
qed

lemma createRows_fields:
  "isInline (createRows c info) = isInline info"
  "isCollapsed (createRows c info) = isCollapsed info"
  "infoBlock (createRows c info) = infoBlock info"
proof -
  obtain i0 r0 i1 r1 where
    b: "createRows_begin c info = (i0, r0)" and
    l: "createRows_inputs c (inputList (infoBlock info)) None (i0, r0) = (i1, r1)" and
    e: "createRows c info = createRows_end c (i1, r1)"
    by (rule createRows_steps)
  note bf = createRows_begin_fields [OF b]
  have "isInline i1 = isInline i0"
    using createRows_inputs_isInline [of c "inputList (infoBlock info)" None i0 r0] l by simp
  then show "isInline (createRows c info) = isInline info"
    by (simp add: e createRows_end_fields bf)
  have f: "infoBlock i1 = infoBlock i0 \<and> isCollapsed i1 = isCollapsed i0"
    using createRows_inputs_fields [of c "inputList (infoBlock info)" None i0 r0] l by simp
  then show "isCollapsed (createRows c info) = isCollapsed info"
    by (simp add: e createRows_end_fields bf)
  from f show "infoBlock (createRows c info) = infoBlock info"
    by (simp add: e createRows_end_fields bf)
qed

text \<open>The number of rows that \<open>createRows_\<close> pushes depends on the block and the two flags
  only.\<close>

lemma createRows_length_cong:
  assumes "infoBlock i = infoBlock j" "isCollapsed i = isCollapsed j" "isInline i = isInline j"
  shows "length (rows (createRows c i)) + length (rows j) =
         length (rows (createRows c j)) + length (rows i)"
proof -
  let ?inps = "inputList (infoBlock i)"
  obtain i0 r0 i1 r1 where
    bi: "createRows_begin c i = (i0, r0)" and
    li: "createRows_inputs c ?inps None (i0, r0) = (i1, r1)" and
    ei: "createRows c i = createRows_end c (i1, r1)"
    by (rule createRows_steps)
  obtain j0 q0 j1 q1 where
    bj: "createRows_begin c j = (j0, q0)" and
    lj: "createRows_inputs c ?inps None (j0, q0) = (j1, q1)" and
    ej: "createRows c j = createRows_end c (j1, q1)"
    by (rule createRows_steps [of c j, unfolded assms(1) [symmetric]])
  note fi = createRows_begin_fields [OF bi]
  note fj = createRows_begin_fields [OF bj]
  have s: "r0 = q0" using fi(5) fj(5) assms by simp
  have il: "isInline i0 = isInline j0" using fi(2) fj(2) assms by simp
  note si = createRows_inputs_shape [OF li]
  note sj = createRows_inputs_shape [OF lj]
  have r: "elements r1 = elements q1"
    unfolding si(1) sj(1) il s ..
  have n: "length (rows i1) + length (rows j) = length (rows j1) + length (rows i)"
    using si(2) sj(2) unfolding il s by (simp add: fi(1) fj(1))
  have c: "isCollapsed i1 = isCollapsed j1"
    using createRows_inputs_fields [of c ?inps None i0 r0]
      createRows_inputs_fields [of c ?inps None j0 q0] li lj fi(3) fj(3) assms(2)
    by simp
  show ?thesis
    unfolding ei ej createRows_end_fields(1) r c using n by simp
qed

lemma measureInfo_rows:
  assumes "measureInfo c fl ms info = Inr info'"
  shows "length (rows info') = 2 * length (rows (createRows c info)) - 1"
    "infoBlock info' = infoBlock info"
proof -
  from assms obtain i1 i2 where
    1: "computeBounds fl ms (addElemSpacing c (createRows c info)) = Inr i1" and
    2: "alignRowElements fl i1 = Inr i2" and
    3: "info' = finalize fl (addRowSpacing c fl i2)"
    by (auto simp: measureInfo_Inr)
  note cf = computeBounds_fields [OF 1]
  note af = alignRowElements_fields [OF 2]
  show "length (rows info') = 2 * length (rows (createRows c info)) - 1"
    using cf af by (simp add: 3 addRowSpacing_length)
  show "infoBlock info' = infoBlock info"
    using cf af by (simp add: 3 createRows_fields)
qed

lemma measureInfo_flags:
  assumes "measureInfo c fl ms info = Inr info'"
  shows "isInline info' = isInline info" "isCollapsed info' = isCollapsed info"
proof -
  from assms obtain i1 i2 where
    1: "computeBounds fl ms (addElemSpacing c (createRows c info)) = Inr i1" and
    2: "alignRowElements fl i1 = Inr i2" and
    3: "info' = finalize fl (addRowSpacing c fl i2)"
    by (auto simp: measureInfo_Inr)
  have a: "\<And>as i. isInline (addRowSpacing_loop c fl as i) = isInline i \<and>
                 isCollapsed (addRowSpacing_loop c fl as i) = isCollapsed i"
  proof -
    fix as i
    show "isInline (addRowSpacing_loop c fl as i) = isInline i \<and>
          isCollapsed (addRowSpacing_loop c fl as i) = isCollapsed i"
      by (induction c fl as i rule: addRowSpacing_loop.induct) (simp_all add: Let_def)
  qed
  have f: "isInline info' = isInline i2 \<and> isCollapsed info' = isCollapsed i2"
    by (simp add: 3 finalize_def addRowSpacing_def a split: prod.splits)
  have b: "isInline i2 = isInline i1 \<and> isCollapsed i2 = isCollapsed i1"
    using 2 by (auto simp: alignRowElements_def bindE_Inr)
  have c: "isInline i1 = isInline (createRows c info) \<and>
           isCollapsed i1 = isCollapsed (createRows c info)"
    using 1 by (auto simp: computeBounds_def bindE_Inr Let_def addElemSpacing_def
                  split: option.splits)
  show "isInline info' = isInline info" "isCollapsed info' = isCollapsed info"
    using f b c by (simp_all add: createRows_fields)
qed

text \<open>A second \<open>measure()\<close> on the same RenderInfo leaves three times the rows.\<close>

lemma measure_again:
  assumes "measureInfo c fl ms (RenderInfo c b) = Inr info"
  shows "infoBlock info = b" "3 \<le> length (rows info)"
    "length (rows info) = 2 * length (rows (createRows c (RenderInfo c b))) - 1"
    "\<exists>info2. measureInfo c fl ms info = Inr info2 \<and> length (rows info2) = 3 * length (rows info)"
proof -
  let ?I = "RenderInfo c b"
  let ?n = "length (rows (createRows c ?I))"
  note r1 = measureInfo_rows [OF assms]
  show "infoBlock info = b" using r1(2) by (simp add: RenderInfo_def)
  from assms obtain i1 i2 where
    1: "computeBounds fl ms (addElemSpacing c (createRows c ?I)) = Inr i1" and
    2: "alignRowElements fl i1 = Inr i2"
    by (auto simp: measureInfo_Inr)
  have "rows i2 = rows (createRows c ?I)"
    using computeBounds_fields(1) [OF 1] alignRowElements_fields(1) [OF 2] by simp
  then have n: "2 \<le> ?n" using measure_fresh_distinct(2) [OF 1 2] by simp
  show l1: "length (rows info) = 2 * ?n - 1" by (rule r1(1))
  then show "3 \<le> length (rows info)" using n by simp
  from measureInfo_total [OF RenderInfo_hasInput, of c fl ms c b] assms
  have "\<forall>a. hasInput (store info a)" by simp
  from measureInfo_total [OF this, of c fl ms] obtain info2 where
    m2: "measureInfo c fl ms info = Inr info2" by blast
  note fl1 = measureInfo_flags [OF assms]
  have "length (rows (createRows c info)) + length (rows ?I) = ?n + length (rows info)"
    by (rule createRows_length_cong) (simp_all add: r1(2) fl1)
  then have "length (rows (createRows c info)) = ?n + length (rows info)"
    by (simp add: RenderInfo_def)
  then have "length (rows info2) = 3 * length (rows info)"
    using measureInfo_rows(1) [OF m2] l1 n by simp
  with m2 show "\<exists>info2. measureInfo c fl ms info = Inr info2 \<and>
      length (rows info2) = 3 * length (rows info)"
    by blast
qed


lemma demoBlock_createRows:
  "length (rows (createRows demoConstants (RenderInfo demoConstants (demoBlock [] [] None)))) = 2"
  by (simp add: demo_defs Let_def)



end
